theory Spec2Isabelle
  imports Complex_Main
begin

section \<open>UniformXTabulated2DFunction: the data model\<close>

text \<open>
  The class \<^verbatim>\<open>Opm::UniformXTabulated2DFunction<Scalar>\<close> stores a jagged grid of sample
  points: \<^verbatim>\<open>xPos_\<close> holds the x-position of every column and \<^verbatim>\<open>samples_\<close> holds, per
  column, the tuples \<^verbatim>\<open>(x, y, value)\<close>.

  \<^item> \<^verbatim>\<open>Scalar\<close> is modelled by \<^typ>\<open>real\<close>: all statements are about exact arithmetic.
  \<^item> \<^verbatim>\<open>int\<close> is modelled by \<^typ>\<open>int\<close>; every index the code computes by integer
    arithmetic is bounded by a vector size. The conversion \<^verbatim>\<open>static_cast<int>\<close> of a
    floating point number is the one place where a value can leave the 32 bits of \<^verbatim>\<open>int\<close>,
    and it is modelled with its 32-bit range (\<open>static_cast_int\<close> below).
  \<^item> \<^verbatim>\<open>OPM_THROW\<close>, a failing \<^verbatim>\<open>assert\<close> and the range check of \<^verbatim>\<open>std::vector::at\<close>
    are values of the type \<open>error\<close>. The flag \<open>checked\<close> of the functions below is
    true when \<^verbatim>\<open>NDEBUG\<close> is not defined, i.e. when \<^verbatim>\<open>assert\<close> and the
    \<^verbatim>\<open>#ifndef NDEBUG\<close> blocks are compiled in.
  \<^item> An unchecked read (\<^verbatim>\<open>operator[]\<close>, \<^verbatim>\<open>front()\<close>, \<^verbatim>\<open>back()\<close>) outside of a vector
    is undefined behaviour in C++; the model reads with \<open>!\<close>, \<open>hd\<close> and \<open>last\<close>, whose
    value is unspecified there as well. All theorems below are stated for tables on which
    every such read is in range.
\<close>

type_synonym SamplePoint = "real \<times> real \<times> real"

record table =
  samples :: "SamplePoint list list"
  xPos :: "real list"

datatype error = NumericalIssue | InvalidArgument | OutOfRange | AssertionFailed

text \<open>\<^verbatim>\<open>std::get<1>\<close> and \<^verbatim>\<open>std::get<2>\<close> of a sample point.\<close>

definition get1 :: "SamplePoint \<Rightarrow> real" where
  "get1 p = fst (snd p)"

definition get2 :: "SamplePoint \<Rightarrow> real" where
  "get2 p = snd (snd p)"

text \<open>\<^verbatim>\<open>std::vector::at\<close>: the index is converted to \<^verbatim>\<open>size_t\<close>, so a negative index is out
  of range as well.\<close>

definition vector_at :: "'a list \<Rightarrow> int \<Rightarrow> error + 'a" where
  "vector_at xs i = (if 0 \<le> i \<and> i < int (length xs) then Inr (xs ! nat i) else Inl OutOfRange)"

text \<open>\<^verbatim>\<open>std::vector::resize\<close> with value-initialised new elements.\<close>

definition resize :: "'a list list \<Rightarrow> nat \<Rightarrow> 'a list list" where
  "resize xs n = take n xs @ replicate (n - length xs) []"

text \<open>
  \<^verbatim>\<open>static_cast<int>\<close> of a floating point number truncates towards zero. \<^verbatim>\<open>int\<close> has 32
  bits. When the truncated value does not fit, the C++ standard leaves the conversion
  undefined; the model then returns \<^verbatim>\<open>INT_MIN\<close>, which is what the conversion instruction of
  x86-64 delivers.
\<close>

definition INT_MIN :: int where
  "INT_MIN = - 2147483648"

definition INT_MAX :: int where
  "INT_MAX = 2147483647"

definition static_cast_int :: "real \<Rightarrow> int" where
  "static_cast_int r =
     (let k = (if 0 \<le> r then \<lfloor>r\<rfloor> else \<lceil>r\<rceil>)
      in if INT_MIN \<le> k \<and> k \<le> INT_MAX then k else INT_MIN)"

definition empty_table :: table where
  "empty_table = \<lparr>samples = [], xPos = []\<rparr>"

subsection \<open>Accessors\<close>

definition xMin :: "table \<Rightarrow> real" where
  "xMin t = hd (xPos t)"

definition xMax :: "table \<Rightarrow> real" where
  "xMax t = last (xPos t)"

definition xAt :: "table \<Rightarrow> int \<Rightarrow> real" where
  "xAt t i = xPos t ! nat i"

definition yAt :: "table \<Rightarrow> int \<Rightarrow> int \<Rightarrow> real" where
  "yAt t i j = get1 (samples t ! nat i ! nat j)"

definition valueAt :: "table \<Rightarrow> int \<Rightarrow> int \<Rightarrow> real" where
  "valueAt t i j = get2 (samples t ! nat i ! nat j)"

definition numX :: "table \<Rightarrow> int" where
  "numX t = int (length (xPos t))"

definition yMin :: "table \<Rightarrow> int \<Rightarrow> error + real" where
  "yMin t i = (case vector_at (samples t) i of Inl e \<Rightarrow> Inl e | Inr col \<Rightarrow> Inr (get1 (hd col)))"

definition yMax :: "table \<Rightarrow> int \<Rightarrow> error + real" where
  "yMax t i = (case vector_at (samples t) i of Inl e \<Rightarrow> Inl e | Inr col \<Rightarrow> Inr (get1 (last col)))"

definition numY :: "table \<Rightarrow> int \<Rightarrow> error + int" where
  "numY t i = (case vector_at (samples t) i of Inl e \<Rightarrow> Inl e | Inr col \<Rightarrow> Inr (int (length col)))"

definition iToX :: "bool \<Rightarrow> table \<Rightarrow> int \<Rightarrow> error + real" where
  "iToX checked t i =
     (if checked \<and> \<not> (0 \<le> i \<and> i < numX t) then Inl AssertionFailed
      else vector_at (xPos t) i)"

subsection \<open>Position-to-index mapping\<close>

text \<open>
  The bisection loop of \<^verbatim>\<open>xToI\<close>. The pivot is \<^verbatim>\<open>(segmentIdx + upperIdx) / 2\<close>; both
  operands are non-negative whenever the loop body runs, so the truncating division of
  C++ is \<open>div\<close>.
\<close>

function xToI_bisect :: "real list \<Rightarrow> real \<Rightarrow> int \<Rightarrow> int \<Rightarrow> int" where
  "xToI_bisect xs x segmentIdx upperIdx =
     (if segmentIdx + 1 < upperIdx then
        (let pivotIdx = (segmentIdx + upperIdx) div 2 in
         if x < xs ! nat pivotIdx then xToI_bisect xs x segmentIdx pivotIdx
         else xToI_bisect xs x pivotIdx upperIdx)
      else segmentIdx)"
  by pat_completeness auto
termination
  by (relation "measure (\<lambda>(xs, x, segmentIdx, upperIdx). nat (upperIdx - segmentIdx))") auto

declare xToI_bisect.simps [simp del]

text \<open>The choice of \<^verbatim>\<open>segmentIdx\<close> in \<^verbatim>\<open>xToI\<close>, with the two assertions that follow the
  bisection.\<close>

definition xToI_segment :: "bool \<Rightarrow> table \<Rightarrow> real \<Rightarrow> error + int" where
  "xToI_segment checked t x =
     (if x \<le> xPos t ! 1 then Inr 0
      else if x \<ge> xPos t ! (length (xPos t) - 2) then Inr (int (length (xPos t)) - 2)
      else
        (let segmentIdx = xToI_bisect (xPos t) x 1 (int (length (xPos t)) - 2) in
         if checked \<and> \<not> (xPos t ! nat segmentIdx \<le> x) then Inl AssertionFailed
         else if checked \<and> \<not> (x \<le> xPos t ! nat (segmentIdx + 1)) then Inl AssertionFailed
         else Inr segmentIdx))"

definition xToI :: "bool \<Rightarrow> table \<Rightarrow> real \<Rightarrow> bool \<Rightarrow> error + real" where
  "xToI checked t x extrapolate =
     (if checked \<and> \<not> (extrapolate \<or> (xMin t \<le> x \<and> x \<le> xMax t)) then Inl AssertionFailed
      else if checked \<and> \<not> (length (xPos t) \<ge> 2) then Inl AssertionFailed
      else
        (case xToI_segment checked t x of
           Inl e \<Rightarrow> Inl e
         | Inr segmentIdx \<Rightarrow>
             (let x1 = xPos t ! nat segmentIdx;
                  x2 = xPos t ! nat (segmentIdx + 1)
              in Inr (real_of_int segmentIdx + (x - x1) / (x2 - x1)))))"

text \<open>The interval halving loop of \<^verbatim>\<open>yToJ\<close>.\<close>

function yToJ_halving :: "SamplePoint list \<Rightarrow> real \<Rightarrow> int \<Rightarrow> int \<Rightarrow> int" where
  "yToJ_halving colSamplePoints y lowerIdx upperIdx =
     (if lowerIdx + 1 < upperIdx then
        (let pivotIdx = (lowerIdx + upperIdx) div 2 in
         if y < get1 (colSamplePoints ! nat pivotIdx)
         then yToJ_halving colSamplePoints y lowerIdx pivotIdx
         else yToJ_halving colSamplePoints y pivotIdx upperIdx)
      else lowerIdx)"
  by pat_completeness auto
termination
  by (relation "measure (\<lambda>(c, y, lowerIdx, upperIdx). nat (upperIdx - lowerIdx))") auto

declare yToJ_halving.simps [simp del]

text \<open>In \<^verbatim>\<open>yToJ\<close> the calls \<^verbatim>\<open>yMin(i)\<close> and \<^verbatim>\<open>yMax(i)\<close> of the second assertion read the
  column that \<^verbatim>\<open>samples_.at(i)\<close> has just returned, so they cannot throw.\<close>

definition yToJ :: "bool \<Rightarrow> table \<Rightarrow> int \<Rightarrow> real \<Rightarrow> bool \<Rightarrow> error + real" where
  "yToJ checked t i y extrapolate =
     (if checked \<and> \<not> (0 \<le> i \<and> i < numX t) then Inl AssertionFailed
      else
        (case vector_at (samples t) i of
           Inl e \<Rightarrow> Inl e
         | Inr colSamplePoints \<Rightarrow>
             (if checked \<and> \<not> (extrapolate \<or>
                   (get1 (hd colSamplePoints) \<le> y \<and> y \<le> get1 (last colSamplePoints)))
              then Inl AssertionFailed
              else
                (let lowerIdx = yToJ_halving colSamplePoints y 0 (int (length colSamplePoints) - 1);
                     y1 = get1 (colSamplePoints ! nat lowerIdx);
                     y2 = get1 (colSamplePoints ! nat (lowerIdx + 1))
                 in
                   if checked \<and> \<not> (y1 \<le> y \<or> (extrapolate \<and> lowerIdx = 0))
                   then Inl AssertionFailed
                   else if checked \<and> \<not> (y \<le> y2 \<or>
                       (extrapolate \<and> lowerIdx = int (length colSamplePoints) - 2))
                   then Inl AssertionFailed
                   else Inr (real_of_int lowerIdx + (y - y1) / (y2 - y1))))))"

subsection \<open>Domain membership\<close>

text \<open>Both \<^verbatim>\<open>col1SamplePoints\<close> and \<^verbatim>\<open>col2SamplePoints\<close> are \<^verbatim>\<open>samples_.at(int(i))\<close> in the
  source.\<close>

definition applies :: "bool \<Rightarrow> table \<Rightarrow> real \<Rightarrow> real \<Rightarrow> error + bool" where
  "applies checked t x y =
     (if x < xMin t \<or> xMax t < x then Inr False
      else
        (case xToI checked t x False of
           Inl e \<Rightarrow> Inl e
         | Inr i \<Rightarrow>
             (case vector_at (samples t) (static_cast_int i) of
                Inl e \<Rightarrow> Inl e
              | Inr col1SamplePoints \<Rightarrow>
                  (case vector_at (samples t) (static_cast_int i) of
                     Inl e \<Rightarrow> Inl e
                   | Inr col2SamplePoints \<Rightarrow>
                       (let alpha = i - real_of_int (static_cast_int i);
                            yMin' = alpha * get1 (hd col1SamplePoints)
                                    + (1 - alpha) * get1 (hd col2SamplePoints);
                            yMax' = alpha * get1 (last col1SamplePoints)
                                    + (1 - alpha) * get1 (last col2SamplePoints)
                        in Inr (yMin' \<le> y \<and> y \<le> yMax'))))))"

subsection \<open>Evaluation\<close>

text \<open>The \<^verbatim>\<open>#ifndef NDEBUG\<close> block at the start of both \<^verbatim>\<open>eval\<close> overloads:
  \<^verbatim>\<open>if (!extrapolate && !applies(x,y)) OPM_THROW(NumericalIssue, ...)\<close>.\<close>

definition eval_check :: "bool \<Rightarrow> table \<Rightarrow> real \<Rightarrow> real \<Rightarrow> bool \<Rightarrow> error + unit" where
  "eval_check checked t x y extrapolate =
     (if checked \<and> \<not> extrapolate then
        (case applies checked t x y of
           Inl e \<Rightarrow> Inl e
         | Inr a \<Rightarrow> if \<not> a then Inl NumericalIssue else Inr ())
      else Inr ())"

definition eval :: "bool \<Rightarrow> table \<Rightarrow> real \<Rightarrow> real \<Rightarrow> bool \<Rightarrow> error + real" where
  "eval checked t x y extrapolate =
     (case eval_check checked t x y extrapolate of
        Inl e \<Rightarrow> Inl e
      | Inr _ \<Rightarrow>
     (case xToI checked t x extrapolate of
        Inl e \<Rightarrow> Inl e
      | Inr alpha0 \<Rightarrow>
     (let i = max 0 (min (numX t - 2) (static_cast_int alpha0));
          alpha = alpha0 - real_of_int i
      in
     (case yToJ checked t i y extrapolate of
        Inl e \<Rightarrow> Inl e
      | Inr beta1_0 \<Rightarrow>
     (case yToJ checked t (i + 1) y extrapolate of
        Inl e \<Rightarrow> Inl e
      | Inr beta2_0 \<Rightarrow>
     (case numY t i of
        Inl e \<Rightarrow> Inl e
      | Inr numY1 \<Rightarrow>
     (case numY t (i + 1) of
        Inl e \<Rightarrow> Inl e
      | Inr numY2 \<Rightarrow>
     (let j1 = max 0 (min (numY1 - 2) (static_cast_int beta1_0));
          j2 = max 0 (min (numY2 - 2) (static_cast_int beta2_0));
          beta1 = beta1_0 - real_of_int j1;
          beta2 = beta2_0 - real_of_int j2;
          s1 = valueAt t i j1 * (1 - beta1) + valueAt t i (j1 + 1) * beta1;
          s2 = valueAt t (i + 1) j2 * (1 - beta2) + valueAt t (i + 1) (j2 + 1) * beta2
      in Inr (s1 * (1 - alpha) + s2 * alpha)))))))))"


subsection \<open>Derivative-carrying numbers\<close>

text \<open>
  Modelled from the spec: the class \<^verbatim>\<open>Evaluation\<close> (a value together with a fixed-length
  array of partial derivatives) and its arithmetic are not part of the sources at hand. The
  operations that the second \<^verbatim>\<open>eval\<close> overload uses are modelled as the usual forward-mode
  rules: constants have zero derivatives, sums add derivatives, products follow the product
  rule. The field \<^verbatim>\<open>value\<close> is called \<open>val\<close> here.
\<close>

record Evaluation =
  val :: real
  derivatives :: "real list"

definition Evaluation_createConstant :: "nat \<Rightarrow> real \<Rightarrow> Evaluation" where
  "Evaluation_createConstant numVars v = \<lparr>val = v, derivatives = replicate numVars 0\<rparr>"

text \<open>\<^verbatim>\<open>e -= i\<close> for an integer \<open>i\<close>.\<close>

definition Evaluation_minus_int :: "Evaluation \<Rightarrow> int \<Rightarrow> Evaluation" where
  "Evaluation_minus_int e i = e\<lparr>val := val e - real_of_int i\<rparr>"

text \<open>\<^verbatim>\<open>1.0 - e\<close>.\<close>

definition Evaluation_one_minus :: "Evaluation \<Rightarrow> Evaluation" where
  "Evaluation_one_minus e = \<lparr>val = 1 - val e, derivatives = map uminus (derivatives e)\<rparr>"

text \<open>\<^verbatim>\<open>c * e\<close> for a scalar \<open>c\<close>.\<close>

definition Evaluation_scale :: "real \<Rightarrow> Evaluation \<Rightarrow> Evaluation" where
  "Evaluation_scale c e = \<lparr>val = c * val e, derivatives = map (\<lambda>d. c * d) (derivatives e)\<rparr>"

definition Evaluation_plus :: "Evaluation \<Rightarrow> Evaluation \<Rightarrow> Evaluation" where
  "Evaluation_plus a b =
     \<lparr>val = val a + val b,
      derivatives = map (\<lambda>k. derivatives a ! k + derivatives b ! k) [0..<length (derivatives a)]\<rparr>"

definition Evaluation_times :: "Evaluation \<Rightarrow> Evaluation \<Rightarrow> Evaluation" where
  "Evaluation_times a b =
     \<lparr>val = val a * val b,
      derivatives = map (\<lambda>k. val a * derivatives b ! k + derivatives a ! k * val b)
                        [0..<length (derivatives a)]\<rparr>"

text \<open>
  The overload \<^verbatim>\<open>eval(const Evaluation&, const Evaluation&, bool)\<close>. All derivative arrays
  have the length of \<^verbatim>\<open>x.derivatives\<close>; the loop over \<^verbatim>\<open>varIdx\<close> overwrites every entry of
  the derivatives of \<^verbatim>\<open>alpha\<close>, \<^verbatim>\<open>beta1\<close> and \<^verbatim>\<open>beta2\<close>.
\<close>

definition eval_Evaluation ::
  "bool \<Rightarrow> table \<Rightarrow> Evaluation \<Rightarrow> Evaluation \<Rightarrow> bool \<Rightarrow> error + Evaluation" where
  "eval_Evaluation checked t x y extrapolate =
     (case eval_check checked t (val x) (val y) extrapolate of
        Inl e \<Rightarrow> Inl e
      | Inr _ \<Rightarrow>
     (case xToI checked t (val x) extrapolate of
        Inl e \<Rightarrow> Inl e
      | Inr xi \<Rightarrow>
     (let alpha0 = Evaluation_createConstant (length (derivatives x)) xi;
          i = max 0 (min (numX t - 2) (static_cast_int (val alpha0)));
          alpha1 = Evaluation_minus_int alpha0 i
      in
     (case yToJ checked t i (val y) extrapolate of
        Inl e \<Rightarrow> Inl e
      | Inr beta1_0 \<Rightarrow>
     (case yToJ checked t (i + 1) (val y) extrapolate of
        Inl e \<Rightarrow> Inl e
      | Inr beta2_0 \<Rightarrow>
     (case numY t i of
        Inl e \<Rightarrow> Inl e
      | Inr numY1 \<Rightarrow>
     (case numY t (i + 1) of
        Inl e \<Rightarrow> Inl e
      | Inr numY2 \<Rightarrow>
     (let j1 = max 0 (min (numY1 - 2) (static_cast_int beta1_0));
          j2 = max 0 (min (numY2 - 2) (static_cast_int beta2_0));
          alpha = alpha1\<lparr>derivatives :=
                    map (\<lambda>varIdx. derivatives x ! varIdx / (xAt t (i + 1) - xAt t i))
                        [0..<length (derivatives x)]\<rparr>;
          beta1 = \<lparr>val = beta1_0 - real_of_int j1,
                   derivatives =
                    map (\<lambda>varIdx. derivatives y ! varIdx / (yAt t i (j1 + 1) - yAt t i j1))
                        [0..<length (derivatives x)]\<rparr>;
          beta2 = \<lparr>val = beta2_0 - real_of_int j2,
                   derivatives =
                    map (\<lambda>varIdx. derivatives y ! varIdx
                                    / (yAt t (i + 1) (j2 + 1) - yAt t (i + 1) j2))
                        [0..<length (derivatives x)]\<rparr>;
          s1 = Evaluation_plus
                 (Evaluation_scale (valueAt t i j1) (Evaluation_one_minus beta1))
                 (Evaluation_scale (valueAt t i (j1 + 1)) beta1);
          s2 = Evaluation_plus
                 (Evaluation_scale (valueAt t (i + 1) j2) (Evaluation_one_minus beta2))
                 (Evaluation_scale (valueAt t (i + 1) (j2 + 1)) beta2);
          result = Evaluation_plus
                     (Evaluation_times s1 (Evaluation_one_minus alpha))
                     (Evaluation_times s2 alpha)
      in Inr result))))))))"

text \<open>The two overloads called without the third argument: the scalar one declares
  \<^verbatim>\<open>bool extrapolate = true\<close>, the derivative-carrying one \<^verbatim>\<open>bool extrapolate=false\<close>.\<close>

definition eval_default :: "bool \<Rightarrow> table \<Rightarrow> real \<Rightarrow> real \<Rightarrow> error + real" where
  "eval_default checked t x y = eval checked t x y True"

definition eval_Evaluation_default ::
  "bool \<Rightarrow> table \<Rightarrow> Evaluation \<Rightarrow> Evaluation \<Rightarrow> error + Evaluation" where
  "eval_Evaluation_default checked t x y = eval_Evaluation checked t x y False"

subsection \<open>Construction\<close>

text \<open>Both functions return the new table together with the returned index; when they
  throw, nothing has been modified yet.\<close>

definition appendXPos :: "table \<Rightarrow> real \<Rightarrow> error + (table \<times> nat)" where
  "appendXPos t nextX =
     (if xPos t = [] \<or> last (xPos t) < nextX then
        (let xPos' = xPos t @ [nextX];
             samples' = resize (samples t) (length xPos')
         in Inr (t\<lparr>samples := samples', xPos := xPos'\<rparr>, length xPos' - 1))
      else if hd (xPos t) > nextX then
        Inr (t\<lparr>samples := [] # samples t, xPos := nextX # xPos t\<rparr>, 0)
      else Inl InvalidArgument)"

definition appendSamplePoint ::
  "bool \<Rightarrow> table \<Rightarrow> int \<Rightarrow> real \<Rightarrow> real \<Rightarrow> error + (table \<times> nat)" where
  "appendSamplePoint checked t i y v =
     (if checked \<and> \<not> (0 \<le> i \<and> i < numX t) then Inl AssertionFailed
      else
        (case iToX checked t i of
           Inl e \<Rightarrow> Inl e
         | Inr x \<Rightarrow>
             (let col = samples t ! nat i in
              if col = [] \<or> get1 (last col) < y then
                Inr (t\<lparr>samples := (samples t)[nat i := col @ [(x, y, v)]]\<rparr>,
                     length (col @ [(x, y, v)]) - 1)
              else if get1 (hd col) > y then
                Inr (t\<lparr>samples := (samples t)[nat i := (x, y, v) # col]\<rparr>, 0)
              else Inl InvalidArgument)))"

text \<open>Feeding a list of x-positions, or a list of \<open>(y, value)\<close> pairs for one column, one
  call after the other; the first exception ends the run.\<close>

fun appendXPos_list :: "table \<Rightarrow> real list \<Rightarrow> error + table" where
  "appendXPos_list t [] = Inr t"
| "appendXPos_list t (x # xs) =
     (case appendXPos t x of Inl e \<Rightarrow> Inl e | Inr (t', _) \<Rightarrow> appendXPos_list t' xs)"

fun appendSamplePoint_list ::
  "bool \<Rightarrow> table \<Rightarrow> int \<Rightarrow> (real \<times> real) list \<Rightarrow> error + table" where
  "appendSamplePoint_list checked t i [] = Inr t"
| "appendSamplePoint_list checked t i ((y, v) # ps) =
     (case appendSamplePoint checked t i y v of
        Inl e \<Rightarrow> Inl e
      | Inr (t', _) \<Rightarrow> appendSamplePoint_list checked t' i ps)"

subsection \<open>Invariants of a table\<close>

text \<open>
  The fields are private and only the two append functions change them. Every table they
  produce from the empty one has as many columns as x-positions, strictly ascending
  x-positions and strictly ascending y-positions in each column. A table is ready for
  queries once it has two columns and two points in every column.
\<close>

definition table_inv :: "table \<Rightarrow> bool" where
  "table_inv t \<longleftrightarrow>
     length (samples t) = length (xPos t) \<and>
     sorted_wrt (<) (xPos t) \<and>
     list_all (\<lambda>col. sorted_wrt (<) (map get1 col)) (samples t)"

definition query_ready :: "table \<Rightarrow> bool" where
  "query_ready t \<longleftrightarrow> 2 \<le> length (xPos t) \<and> list_all (\<lambda>col. 2 \<le> length col) (samples t)"

text \<open>The tables that a client can hold: the empty one and whatever the successful calls of
  the two append functions make of it.\<close>

inductive constructed :: "table \<Rightarrow> bool" where
  constructed_empty: "constructed empty_table"
| constructed_xPos:
    "constructed t \<Longrightarrow> appendXPos t x = Inr (t', k) \<Longrightarrow> constructed t'"
| constructed_sample:
    "constructed t \<Longrightarrow> appendSamplePoint checked t i y v = Inr (t', k) \<Longrightarrow> constructed t'"

subsection \<open>The example table\<close>

text \<open>The table with x-positions 0 and 1, column 0 with the samples \<open>(y, value) = (0, 0),
  (1, 1)\<close> and column 1 with \<open>(0, 2), (1, 3)\<close>, as the calls that build it.\<close>

definition example_build :: "bool \<Rightarrow> error + table" where
  "example_build checked =
     (case appendXPos_list empty_table [0, 1] of
        Inl e \<Rightarrow> Inl e
      | Inr t1 \<Rightarrow>
          (case appendSamplePoint_list checked t1 0 [(0, 0), (1, 1)] of
             Inl e \<Rightarrow> Inl e
           | Inr t2 \<Rightarrow> appendSamplePoint_list checked t2 1 [(0, 2), (1, 3)]))"

definition example_table :: table where
  "example_table = \<lparr>samples = [[(0, 0, 0), (0, 1, 1)], [(1, 0, 2), (1, 1, 3)]], xPos = [0, 1]\<rparr>"


subsection \<open>Reference definitions for the comparison with the documented behaviour\<close>

text \<open>
  The documented domain test: outside of \<open>[xMin, xMax]\<close> the answer is no; otherwise, with
  \<open>i\<close> the integer part and \<open>alpha\<close> the fractional part of \<^verbatim>\<open>xToI(x)\<close>, the y-bounds of the
  columns \<open>i\<close> and \<open>i + 1\<close> are blended with the weights \<open>1 - alpha\<close> and \<open>alpha\<close>.
\<close>

definition spec_applies :: "bool \<Rightarrow> table \<Rightarrow> real \<Rightarrow> real \<Rightarrow> error + bool" where
  "spec_applies checked t x y =
     (if x < xMin t \<or> x > xMax t then Inr False
      else
        (case xToI checked t x False of
           Inl e \<Rightarrow> Inl e
         | Inr r \<Rightarrow>
             (let i = static_cast_int r;
                  alpha = r - real_of_int i
              in
                (case (yMin t i, yMin t (i + 1), yMax t i, yMax t (i + 1)) of
                   (Inr lo1, Inr lo2, Inr hi1, Inr hi2) \<Rightarrow>
                     Inr ((1 - alpha) * lo1 + alpha * lo2 \<le> y \<and>
                          y \<le> (1 - alpha) * hi1 + alpha * hi2)
                 | _ \<Rightarrow> Inl OutOfRange))))"

text \<open>
  The bilinear blend over the cell with the corner values \<open>value(i, j1)\<close>,
  \<open>value(i, j1 + 1)\<close>, \<open>value(i + 1, j2)\<close>, \<open>value(i + 1, j2 + 1)\<close>, and its derivative by
  the chain rule when \<open>alpha\<close>, \<open>beta1\<close>, \<open>beta2\<close> have the derivatives
  \<open>dX / (x[i+1] - x[i])\<close>, \<open>dY / (y[i,j1+1] - y[i,j1])\<close> and
  \<open>dY / (y[i+1,j2+1] - y[i+1,j2])\<close> and the corner values are constants.
\<close>

definition spec_blend :: "table \<Rightarrow> int \<Rightarrow> int \<Rightarrow> int \<Rightarrow> real \<Rightarrow> real \<Rightarrow> real \<Rightarrow> real" where
  "spec_blend t i j1 j2 alpha beta1 beta2 =
     (valueAt t i j1 * (1 - beta1) + valueAt t i (j1 + 1) * beta1) * (1 - alpha)
     + (valueAt t (i + 1) j2 * (1 - beta2) + valueAt t (i + 1) (j2 + 1) * beta2) * alpha"

definition spec_blend_derivative ::
  "table \<Rightarrow> int \<Rightarrow> int \<Rightarrow> int \<Rightarrow> real \<Rightarrow> real \<Rightarrow> real \<Rightarrow> real \<Rightarrow> real \<Rightarrow> real" where
  "spec_blend_derivative t i j1 j2 alpha beta1 beta2 dX dY =
     (let dalpha = dX / (xAt t (i + 1) - xAt t i);
          dbeta1 = dY / (yAt t i (j1 + 1) - yAt t i j1);
          dbeta2 = dY / (yAt t (i + 1) (j2 + 1) - yAt t (i + 1) j2);
          s1 = valueAt t i j1 * (1 - beta1) + valueAt t i (j1 + 1) * beta1;
          s2 = valueAt t (i + 1) j2 * (1 - beta2) + valueAt t (i + 1) (j2 + 1) * beta2;
          ds1 = (valueAt t i (j1 + 1) - valueAt t i j1) * dbeta1;
          ds2 = (valueAt t (i + 1) (j2 + 1) - valueAt t (i + 1) j2) * dbeta2
      in ds1 * (1 - alpha) + ds2 * alpha + (s2 - s1) * dalpha)"

text \<open>The clamped bracket index \<^verbatim>\<open>std::max(0, std::min(n - 2, static_cast<int>(r)))\<close> that
  both \<^verbatim>\<open>eval\<close> overloads compute for the x-axis and for the two columns.\<close>

definition bracket :: "int \<Rightarrow> real \<Rightarrow> int" where
  "bracket n r = max 0 (min (n - 2) (static_cast_int r))"

text \<open>A second example: the same x-positions, but column 1 reaches up to \<open>y = 3\<close>.\<close>

definition jagged_table :: table where
  "jagged_table = \<lparr>samples = [[(0, 0, 0), (0, 1, 1)], [(1, 0, 2), (1, 3, 3)]], xPos = [0, 1]\<rparr>"

definition jagged_build :: "bool \<Rightarrow> error + table" where
  "jagged_build checked =
     (case appendXPos_list empty_table [0, 1] of
        Inl e \<Rightarrow> Inl e
      | Inr t1 \<Rightarrow>
          (case appendSamplePoint_list checked t1 0 [(0, 0), (1, 1)] of
             Inl e \<Rightarrow> Inl e
           | Inr t2 \<Rightarrow> appendSamplePoint_list checked t2 1 [(0, 2), (3, 3)]))"


subsection \<open>Notions used in the statements\<close>

text \<open>The value both mapping functions return for the interval \<open>s\<close>: the index plus the
  relative position of the coordinate between the samples \<open>s\<close> and \<open>s + 1\<close>.\<close>

definition interval_position :: "real list \<Rightarrow> int \<Rightarrow> real \<Rightarrow> real" where
  "interval_position xs s x =
     real_of_int s + (x - xs ! nat s) / (xs ! nat (s + 1) - xs ! nat s)"

text \<open>An interval index \<open>s\<close> brackets a coordinate: it is a valid interval, the coordinate is
  not below the interval unless it is the first one, and not above it unless it is the last
  one.\<close>

definition bracketed :: "real list \<Rightarrow> int \<Rightarrow> real \<Rightarrow> bool" where
  "bracketed xs s x \<longleftrightarrow>
     0 \<le> s \<and> s \<le> int (length xs) - 2 \<and>
     (1 \<le> s \<longrightarrow> xs ! nat s \<le> x) \<and>
     (s \<le> int (length xs) - 3 \<longrightarrow> x \<le> xs ! nat (s + 1))"

text \<open>The cell that both \<^verbatim>\<open>eval\<close> overloads locate before they interpolate: the clamped
  column index \<open>i\<close>, the clamped row indices \<open>j1\<close> and \<open>j2\<close> in the columns \<open>i\<close> and \<open>i + 1\<close>,
  and the offsets \<open>alpha\<close>, \<open>beta1\<close>, \<open>beta2\<close> that remain once the indices are subtracted.\<close>

definition eval_cell ::
  "bool \<Rightarrow> table \<Rightarrow> real \<Rightarrow> real \<Rightarrow> bool \<Rightarrow> error + (int \<times> int \<times> int \<times> real \<times> real \<times> real)" where
  "eval_cell checked t x y extrapolate =
     (case xToI checked t x extrapolate of
        Inl e \<Rightarrow> Inl e
      | Inr a \<Rightarrow>
     (let i = bracket (numX t) a in
     (case yToJ checked t i y extrapolate of
        Inl e \<Rightarrow> Inl e
      | Inr b1 \<Rightarrow>
     (case yToJ checked t (i + 1) y extrapolate of
        Inl e \<Rightarrow> Inl e
      | Inr b2 \<Rightarrow>
     (case numY t i of
        Inl e \<Rightarrow> Inl e
      | Inr n1 \<Rightarrow>
     (case numY t (i + 1) of
        Inl e \<Rightarrow> Inl e
      | Inr n2 \<Rightarrow>
     (let j1 = bracket n1 b1; j2 = bracket n2 b2
      in Inr (i, j1, j2, a - real_of_int i, b1 - real_of_int j1, b2 - real_of_int j2))))))))"

text \<open>A table with three columns, for queries far outside of the tabulated range.\<close>

definition three_column_table :: table where
  "three_column_table =
     \<lparr>samples = [[(0, 0, 0), (0, 1, 1)], [(1, 0, 2), (1, 1, 3)], [(2, 0, 10), (2, 1, 11)]],
      xPos = [0, 1, 2]\<rparr>"

definition three_column_build :: "bool \<Rightarrow> error + table" where
  "three_column_build checked =
     (case appendXPos_list empty_table [0, 1, 2] of
        Inl e \<Rightarrow> Inl e
      | Inr t1 \<Rightarrow>
          (case appendSamplePoint_list checked t1 0 [(0, 0), (1, 1)] of
             Inl e \<Rightarrow> Inl e
           | Inr t2 \<Rightarrow>
               (case appendSamplePoint_list checked t2 1 [(0, 2), (1, 3)] of
                  Inl e \<Rightarrow> Inl e
                | Inr t3 \<Rightarrow> appendSamplePoint_list checked t3 2 [(0, 10), (1, 11)])))"

text \<open>A table with five x-positions and no samples yet.\<close>

definition five_column_table :: table where
  "five_column_table = \<lparr>samples = [[], [], [], [], []], xPos = [0, 1, 2, 4, 8]\<rparr>"

section \<open>The search loops\<close>

text \<open>
  Both loops keep a bracket \<open>lo < hi\<close>. The index they return lies in \<open>[lo, hi)\<close>; unless it is
  still the initial lower index, the sample at the index is at most the coordinate, and unless
  its successor is still the initial upper index, the coordinate is below the next sample.
\<close>

lemma xToI_bisect_spec:
  "lo < hi \<Longrightarrow>
     lo \<le> xToI_bisect xs x lo hi \<and> xToI_bisect xs x lo hi < hi \<and>
     (xToI_bisect xs x lo hi = lo \<or> xs ! nat (xToI_bisect xs x lo hi) \<le> x) \<and>
     (xToI_bisect xs x lo hi + 1 = hi \<or> x < xs ! nat (xToI_bisect xs x lo hi + 1))"
proof (induction xs x lo hi rule: xToI_bisect.induct)
  case (1 xs x lo hi)
  let ?p = "(lo + hi) div 2"
  show ?case
  proof (cases "lo + 1 < hi")
    case False
    then have "xToI_bisect xs x lo hi = lo" by (subst xToI_bisect.simps) simp
    with "1.prems" False show ?thesis by simp
  next
    case True
    have p: "lo < ?p" "?p < hi" using True by auto
    show ?thesis
    proof (cases "x < xs ! nat ?p")
      case lt: True
      have eq: "xToI_bisect xs x lo hi = xToI_bisect xs x lo ?p"
        using True lt by (subst xToI_bisect.simps) (simp add: Let_def)
      from "1.IH"(1)[OF True refl lt p(1)] lt p show ?thesis
        unfolding eq by auto
    next
      case ge: False
      have eq: "xToI_bisect xs x lo hi = xToI_bisect xs x ?p hi"
        using True ge by (subst xToI_bisect.simps) (simp add: Let_def)
      from "1.IH"(2)[OF True refl ge p(2)] ge p show ?thesis
        unfolding eq by auto
    qed
  qed
qed

lemma yToJ_halving_spec:
  "lo < hi \<Longrightarrow>
     lo \<le> yToJ_halving c y lo hi \<and> yToJ_halving c y lo hi < hi \<and>
     (yToJ_halving c y lo hi = lo \<or> get1 (c ! nat (yToJ_halving c y lo hi)) \<le> y) \<and>
     (yToJ_halving c y lo hi + 1 = hi \<or> y < get1 (c ! nat (yToJ_halving c y lo hi + 1)))"
proof (induction c y lo hi rule: yToJ_halving.induct)
  case (1 c y lo hi)
  let ?p = "(lo + hi) div 2"
  show ?case
  proof (cases "lo + 1 < hi")
    case False
    then have "yToJ_halving c y lo hi = lo" by (subst yToJ_halving.simps) simp
    with "1.prems" False show ?thesis by simp
  next
    case True
    have p: "lo < ?p" "?p < hi" using True by auto
    show ?thesis
    proof (cases "y < get1 (c ! nat ?p)")
      case lt: True
      have eq: "yToJ_halving c y lo hi = yToJ_halving c y lo ?p"
        using True lt by (subst yToJ_halving.simps) (simp add: Let_def)
      from "1.IH"(1)[OF True refl lt p(1)] lt p show ?thesis
        unfolding eq by auto
    next
      case ge: False
      have eq: "yToJ_halving c y lo hi = yToJ_halving c y ?p hi"
        using True ge by (subst yToJ_halving.simps) (simp add: Let_def)
      from "1.IH"(2)[OF True refl ge p(2)] ge p show ?thesis
        unfolding eq by auto
    qed
  qed
qed

section \<open>The example tables\<close>

lemmas query_defs =
  eval_def eval_check_def applies_def xToI_def xToI_segment_def yToJ_def numY_def numX_def
  vector_at_def static_cast_int_def INT_MIN_def INT_MAX_def valueAt_def yAt_def xAt_def
  get1_def get2_def
  xMin_def xMax_def xToI_bisect.simps yToJ_halving.simps

lemmas build_defs =
  empty_table_def appendXPos_def appendSamplePoint_def resize_def iToX_def numX_def
  vector_at_def get1_def

lemma example_table_ready: "table_inv example_table \<and> query_ready example_table"
  by (simp add: table_inv_def query_ready_def example_table_def get1_def)

lemma jagged_table_ready: "table_inv jagged_table \<and> query_ready jagged_table"
  by (simp add: table_inv_def query_ready_def jagged_table_def get1_def)

lemma jagged_build_eq: "jagged_build checked = Inr jagged_table"
  by (simp add: jagged_build_def jagged_table_def build_defs Let_def)

lemma three_column_table_ready: "table_inv three_column_table \<and> query_ready three_column_table"
  by (simp add: table_inv_def query_ready_def three_column_table_def get1_def)

lemma three_column_build_eq: "three_column_build checked = Inr three_column_table"
  by (simp add: three_column_build_def three_column_table_def build_defs Let_def)

text \<open>
  Claim C4. The table built by \<^verbatim>\<open>appendXPos(0)\<close>, \<^verbatim>\<open>appendXPos(1)\<close> and the four calls of
  \<^verbatim>\<open>appendSamplePoint\<close> that give column 0 the samples \<open>(y, value) = (0, 0), (1, 1)\<close> and
  column 1 the samples \<open>(0, 2), (1, 3)\<close> evaluates to \<open>1.5\<close> at \<open>(0.5, 0.5)\<close>, the average of
  the four corner values. This holds for the call with the default argument and for both
  values of \<^verbatim>\<open>extrapolate\<close>, with and without \<^verbatim>\<open>NDEBUG\<close>.
\<close>

theorem C4_example_eval:
  "example_build checked = Inr example_table \<and>
   eval_default checked example_table (1 / 2) (1 / 2) = Inr (3 / 2) \<and>
   eval checked example_table (1 / 2) (1 / 2) extrapolate = Inr (3 / 2) \<and>
   (3 / 2 :: real) = (0 + 1 + 2 + 3) / 4"
  by (simp add: example_build_def example_table_def eval_default_def query_defs build_defs Let_def)

section \<open>Construction keeps the table sorted\<close>

lemma strict_sorted_last_Max:
  fixes xs :: "real list"
  assumes "sorted_wrt (<) xs" "xs \<noteq> []"
  shows "last xs = Max (set xs)"
proof -
  have "xs = butlast xs @ [last xs]" using assms(2) by simp
  then have "sorted_wrt (<) (butlast xs @ [last xs])" using assms(1) by simp
  then have "\<forall>y\<in>set (butlast xs). y < last xs" by (simp add: sorted_wrt_append)
  moreover have "set (butlast xs @ [last xs]) = set xs" using assms(2) by simp
  then have "set xs = insert (last xs) (set (butlast xs))" by auto
  ultimately have "\<forall>y\<in>set xs. y \<le> last xs" by auto
  then show ?thesis using assms(2) by (intro Max_eqI[symmetric]) auto
qed

lemma strict_sorted_hd_Min:
  fixes xs :: "real list"
  assumes "sorted_wrt (<) xs" "xs \<noteq> []"
  shows "hd xs = Min (set xs)"
proof -
  obtain a as where xs: "xs = a # as" using assms(2) by (cases xs) auto
  with assms(1) have "\<forall>y\<in>set as. a < y" by simp
  then have "\<forall>y\<in>set xs. a \<le> y" using xs by auto
  then show ?thesis using xs by (intro Min_eqI[symmetric]) auto
qed

lemma strict_sorted_snoc:
  fixes xs :: "real list"
  assumes "sorted_wrt (<) xs" "xs = [] \<or> last xs < x"
  shows "sorted_wrt (<) (xs @ [x])"
proof (cases "xs = []")
  case True then show ?thesis by simp
next
  case False
  with assms(2) have lt: "last xs < x" by simp
  have "\<forall>y\<in>set xs. y \<le> last xs"
    using strict_sorted_last_Max[OF assms(1) False] by simp
  with lt have "\<forall>y\<in>set xs. y < x" by fastforce
  with assms(1) show ?thesis by (simp add: sorted_wrt_append)
qed

lemma strict_sorted_cons:
  fixes xs :: "real list"
  assumes "sorted_wrt (<) xs" "xs = [] \<or> x < hd xs"
  shows "sorted_wrt (<) (x # xs)"
proof (cases "xs = []")
  case True then show ?thesis by simp
next
  case False
  with assms(2) have lt: "x < hd xs" by simp
  have "\<forall>y\<in>set xs. hd xs \<le> y"
    using strict_sorted_hd_Min[OF assms(1) False] by simp
  with lt have "\<forall>y\<in>set xs. x < y" by fastforce
  with assms(1) show ?thesis by simp
qed

lemma resize_Suc: "length xs = n \<Longrightarrow> resize xs (Suc n) = xs @ [[]]"
  by (simp add: resize_def)

lemma appendXPos_result:
  assumes "length (samples t) = length (xPos t)"
  shows "appendXPos t x =
     (if xPos t = [] \<or> last (xPos t) < x
      then Inr (t\<lparr>samples := samples t @ [[]], xPos := xPos t @ [x]\<rparr>, length (xPos t))
      else if x < hd (xPos t)
      then Inr (t\<lparr>samples := [] # samples t, xPos := x # xPos t\<rparr>, 0)
      else Inl InvalidArgument)"
  using assms by (simp add: appendXPos_def Let_def resize_Suc)

lemma appendXPos_inv:
  assumes "table_inv t" "appendXPos t x = Inr (t', k)"
  shows "table_inv t'"
proof -
  have len: "length (samples t) = length (xPos t)" and s: "sorted_wrt (<) (xPos t)"
    using assms(1) by (simp_all add: table_inv_def)
  show ?thesis
  proof (cases "xPos t = [] \<or> last (xPos t) < x")
    case True
    then have t': "t' = t\<lparr>samples := samples t @ [[]], xPos := xPos t @ [x]\<rparr>"
      using assms(2) by (simp add: appendXPos_result[OF len])
    from strict_sorted_snoc[OF s True] assms(1) show ?thesis by (simp add: t' table_inv_def)
  next
    case False
    with assms(2) have gt: "x < hd (xPos t)"
      by (simp add: appendXPos_result[OF len] split: if_splits)
    with False assms(2) have t': "t' = t\<lparr>samples := [] # samples t, xPos := x # xPos t\<rparr>"
      by (simp add: appendXPos_result[OF len])
    from strict_sorted_cons[OF s] gt assms(1) show ?thesis by (simp add: t' table_inv_def)
  qed
qed

lemma appendSamplePoint_range:
  assumes "appendSamplePoint checked t i y v = Inr r"
  shows "0 \<le> i \<and> i < numX t"
  using assms
  by (auto simp: appendSamplePoint_def iToX_def vector_at_def numX_def split: if_splits)

lemma appendSamplePoint_result:
  assumes "0 \<le> i" "i < numX t"
  shows "appendSamplePoint checked t i y v =
     (let col = samples t ! nat i; p = (xPos t ! nat i, y, v) in
      if col = [] \<or> get1 (last col) < y
      then Inr (t\<lparr>samples := (samples t)[nat i := col @ [p]]\<rparr>, length col)
      else if y < get1 (hd col)
      then Inr (t\<lparr>samples := (samples t)[nat i := p # col]\<rparr>, 0)
      else Inl InvalidArgument)"
  using assms by (simp add: appendSamplePoint_def iToX_def vector_at_def numX_def Let_def)

lemma list_all_update:
  assumes "list_all P xs" "P x" shows "list_all P (xs[n := x])"
  using assms
  unfolding list_all_length
proof (intro allI impI)
  fix k assume a: "\<forall>n<length xs. P (xs ! n)" "P x" "k < length (xs[n := x])"
  then show "P (xs[n := x] ! k)" by (cases "k = n") simp_all
qed

lemma appendSamplePoint_inv:
  assumes "table_inv t" "appendSamplePoint checked t i y v = Inr (t', k)"
  shows "table_inv t'"
proof -
  have i: "0 \<le> i" "i < numX t" using appendSamplePoint_range[OF assms(2)] by simp_all
  have len: "length (samples t) = length (xPos t)"
    and all: "list_all (\<lambda>col. sorted_wrt (<) (map get1 col)) (samples t)"
    using assms(1) by (simp_all add: table_inv_def)
  let ?col = "samples t ! nat i" and ?p = "(xPos t ! nat i, y, v)"
  have "nat i < length (samples t)" using i len by (simp add: numX_def)
  then have s: "sorted_wrt (<) (map get1 ?col)" using all by (simp add: list_all_length)
  show ?thesis
  proof (cases "?col = [] \<or> get1 (last ?col) < y")
    case True
    then have t': "t' = t\<lparr>samples := (samples t)[nat i := ?col @ [?p]]\<rparr>"
      using assms(2) by (simp add: appendSamplePoint_result[OF i] Let_def)
    have "map get1 ?col = [] \<or> last (map get1 ?col) < y" using True by (cases "?col = []") (simp_all add: last_map)
    from strict_sorted_snoc[OF s this] have "sorted_wrt (<) (map get1 (?col @ [?p]))"
      by (simp add: get1_def)
    with assms(1) show ?thesis by (simp add: t' table_inv_def list_all_update)
  next
    case False
    with assms(2) have gt: "y < get1 (hd ?col)"
      by (simp add: appendSamplePoint_result[OF i] Let_def split: if_splits)
    with False assms(2) have t': "t' = t\<lparr>samples := (samples t)[nat i := ?p # ?col]\<rparr>"
      by (simp add: appendSamplePoint_result[OF i] Let_def)
    have "map get1 ?col = [] \<or> y < hd (map get1 ?col)" using False gt by (cases "?col = []") (simp_all add: hd_map)
    from strict_sorted_cons[OF s this] have "sorted_wrt (<) (map get1 (?p # ?col))"
      by (simp add: get1_def)
    with assms(1) show ?thesis by (simp add: t' table_inv_def list_all_update)
  qed
qed

text \<open>Hence every table a client can hold satisfies the invariant.\<close>

lemma constructed_inv: "constructed t \<Longrightarrow> table_inv t"
proof (induction rule: constructed.induct)
  case constructed_empty
  show ?case by (simp add: table_inv_def empty_table_def)
next
  case (constructed_xPos t x t' k)
  then show ?case by (blast intro: appendXPos_inv)
next
  case (constructed_sample t checked i y v t' k)
  then show ?case by (blast intro: appendSamplePoint_inv)
qed

lemma appendXPos_list_ascending:
  "length (samples t) = length (xPos t) \<Longrightarrow> sorted_wrt (<) (xPos t @ xs) \<Longrightarrow>
   appendXPos_list t xs =
     Inr (t\<lparr>samples := samples t @ replicate (length xs) [], xPos := xPos t @ xs\<rparr>)"
proof (induction xs arbitrary: t)
  case Nil
  then show ?case by simp
next
  case (Cons x xs)
  let ?t' = "t\<lparr>samples := samples t @ [[]], xPos := xPos t @ [x]\<rparr>"
  have "\<forall>y\<in>set (xPos t). y < x"
    using Cons.prems(2) by (auto simp: sorted_wrt_append)
  then have "xPos t = [] \<or> last (xPos t) < x"
    using last_in_set[of "xPos t"] by blast
  then have step: "appendXPos t x = Inr (?t', length (xPos t))"
    by (simp add: appendXPos_result[OF Cons.prems(1)])
  have "appendXPos_list ?t' xs =
     Inr (?t'\<lparr>samples := samples ?t' @ replicate (length xs) [], xPos := xPos ?t' @ xs\<rparr>)"
    using Cons.prems by (intro Cons.IH) simp_all
  then show ?case using step by (simp add: replicate_app_Cons_same)
qed

lemma appendXPos_list_descending:
  "length (samples t) = length (xPos t) \<Longrightarrow> sorted_wrt (<) (rev xs @ xPos t) \<Longrightarrow>
   appendXPos_list t xs =
     Inr (t\<lparr>samples := replicate (length xs) [] @ samples t, xPos := rev xs @ xPos t\<rparr>)"
proof (induction xs arbitrary: t)
  case Nil
  then show ?case by simp
next
  case (Cons x xs)
  let ?t' = "t\<lparr>samples := [] # samples t, xPos := x # xPos t\<rparr>"
  have lt: "\<forall>y\<in>set (xPos t). x < y"
    using Cons.prems(2) by (auto simp: sorted_wrt_append)
  have step: "appendXPos t x = Inr (?t', 0) \<or>
     (xPos t = [] \<and> appendXPos t x = Inr (?t', length (xPos t)))"
  proof (cases "xPos t = []")
    case True
    then show ?thesis using Cons.prems(1) by (simp add: appendXPos_result[OF Cons.prems(1)])
  next
    case False
    then have "x < last (xPos t)" "x < hd (xPos t)" using lt by simp_all
    then show ?thesis using False by (simp add: appendXPos_result[OF Cons.prems(1)])
  qed
  have "appendXPos_list ?t' xs =
     Inr (?t'\<lparr>samples := replicate (length xs) [] @ samples ?t', xPos := rev xs @ xPos ?t'\<rparr>)"
    using Cons.prems by (intro Cons.IH) simp_all
  then show ?case using step by (auto simp: replicate_app_Cons_same)
qed

lemma appendSamplePoint_list_ascending:
  "0 \<le> i \<Longrightarrow> i < numX t \<Longrightarrow> length (samples t) = length (xPos t) \<Longrightarrow>
   sorted_wrt (<) (map get1 (samples t ! nat i) @ map fst ps) \<Longrightarrow>
   appendSamplePoint_list checked t i ps =
     Inr (t\<lparr>samples := (samples t)[nat i :=
            samples t ! nat i @ map (\<lambda>(y, v). (xPos t ! nat i, y, v)) ps]\<rparr>)"
proof (induction ps arbitrary: t)
  case Nil
  then show ?case by simp
next
  case (Cons q ps)
  obtain y v where q: "q = (y, v)" by (cases q)
  let ?col = "samples t ! nat i" and ?p = "(xPos t ! nat i, y, v)"
  let ?t' = "t\<lparr>samples := (samples t)[nat i := ?col @ [?p]]\<rparr>"
  have n: "nat i < length (samples t)" using Cons.prems(1-3) by (simp add: numX_def)
  have "\<forall>a\<in>set (map get1 ?col). a < y"
    using Cons.prems(4) by (auto simp: sorted_wrt_append q)
  then have "map get1 ?col = [] \<or> last (map get1 ?col) < y"
    using last_in_set[of "map get1 ?col"] by blast
  then have "?col = [] \<or> get1 (last ?col) < y"
    by (cases "?col = []") (simp_all add: last_map)
  then have step: "appendSamplePoint checked t i y v = Inr (?t', length ?col)"
    by (simp add: appendSamplePoint_result[OF Cons.prems(1,2)] Let_def)
  have col': "samples ?t' ! nat i = ?col @ [?p]" using n by simp
  have gp: "get1 ?p = y" by (simp add: get1_def)
  have "appendSamplePoint_list checked ?t' i ps =
     Inr (?t'\<lparr>samples := (samples ?t')[nat i :=
            samples ?t' ! nat i @ map (\<lambda>(y, v). (xPos ?t' ! nat i, y, v)) ps]\<rparr>)"
  proof (intro Cons.IH)
    show "sorted_wrt (<) (map get1 (samples ?t' ! nat i) @ map fst ps)"
      unfolding col' using Cons.prems(4) by (simp add: q gp)
  qed (use Cons.prems in \<open>simp_all add: numX_def\<close>)
  then show ?case using step unfolding col' by (simp add: q)
qed

lemma appendSamplePoint_list_descending:
  "0 \<le> i \<Longrightarrow> i < numX t \<Longrightarrow> length (samples t) = length (xPos t) \<Longrightarrow>
   sorted_wrt (<) (rev (map fst ps) @ map get1 (samples t ! nat i)) \<Longrightarrow>
   appendSamplePoint_list checked t i ps =
     Inr (t\<lparr>samples := (samples t)[nat i :=
            rev (map (\<lambda>(y, v). (xPos t ! nat i, y, v)) ps) @ samples t ! nat i]\<rparr>)"
proof (induction ps arbitrary: t)
  case Nil
  then show ?case by simp
next
  case (Cons q ps)
  obtain y v where q: "q = (y, v)" by (cases q)
  let ?col = "samples t ! nat i" and ?p = "(xPos t ! nat i, y, v)"
  let ?t' = "t\<lparr>samples := (samples t)[nat i := ?p # ?col]\<rparr>"
  have n: "nat i < length (samples t)" using Cons.prems(1-3) by (simp add: numX_def)
  have lt: "\<forall>a\<in>set (map get1 ?col). y < a"
    using Cons.prems(4) by (auto simp: sorted_wrt_append q)
  have step: "\<exists>k. appendSamplePoint checked t i y v = Inr (?t', k)"
  proof (cases "?col = []")
    case True
    then show ?thesis by (simp add: appendSamplePoint_result[OF Cons.prems(1,2)] Let_def)
  next
    case False
    then have "last ?col \<in> set ?col" "hd ?col \<in> set ?col" by simp_all
    with lt have "y < get1 (last ?col)" "y < get1 (hd ?col)" by simp_all
    then show ?thesis
      using False by (simp add: appendSamplePoint_result[OF Cons.prems(1,2)] Let_def)
  qed
  have col': "samples ?t' ! nat i = ?p # ?col" using n by simp
  have gp: "get1 ?p = y" by (simp add: get1_def)
  have "appendSamplePoint_list checked ?t' i ps =
     Inr (?t'\<lparr>samples := (samples ?t')[nat i :=
            rev (map (\<lambda>(y, v). (xPos ?t' ! nat i, y, v)) ps) @ samples ?t' ! nat i]\<rparr>)"
  proof (intro Cons.IH)
    show "sorted_wrt (<) (rev (map fst ps) @ map get1 (samples ?t' ! nat i))"
      unfolding col' using Cons.prems(4) by (simp add: q gp)
  qed (use Cons.prems in \<open>simp_all add: numX_def\<close>)
  then show ?case using step unfolding col' by (auto simp: q)
qed

text \<open>
  Claim C6. On a table that the append functions have built, \<^verbatim>\<open>appendXPos(x)\<close> succeeds exactly
  when the x-sequence is empty or \<open>x\<close> lies strictly above its maximum (a new empty column
  is appended and its index, the old number of columns, is returned) or \<open>x\<close> lies strictly below
  its minimum (a new empty column is inserted at index 0); in every other case it throws
  \<^verbatim>\<open>std::invalid_argument\<close>, the construction error, before anything has been modified.
  \<^verbatim>\<open>appendSamplePoint\<close> follows the same rule on the y-sequence of the column \<open>i\<close> it names,
  and changes no other column.
\<close>

theorem C6_append_rules:
  assumes "table_inv t"
  shows "appendXPos t x =
           (if xPos t = [] \<or> Max (set (xPos t)) < x
            then Inr (t\<lparr>samples := samples t @ [[]], xPos := xPos t @ [x]\<rparr>, length (xPos t))
            else if x < Min (set (xPos t))
            then Inr (t\<lparr>samples := [] # samples t, xPos := x # xPos t\<rparr>, 0)
            else Inl InvalidArgument)
         \<and> (0 \<le> i \<and> i < numX t \<longrightarrow>
            appendSamplePoint checked t i y v =
             (let col = samples t ! nat i; p = (xPos t ! nat i, y, v) in
              if col = [] \<or> Max (get1 ` set col) < y
              then Inr (t\<lparr>samples := (samples t)[nat i := col @ [p]]\<rparr>, length col)
              else if y < Min (get1 ` set col)
              then Inr (t\<lparr>samples := (samples t)[nat i := p # col]\<rparr>, 0)
              else Inl InvalidArgument))"
proof (intro conjI impI)
  have len: "length (samples t) = length (xPos t)" and s: "sorted_wrt (<) (xPos t)"
    and all: "list_all (\<lambda>col. sorted_wrt (<) (map get1 col)) (samples t)"
    using assms by (simp_all add: table_inv_def)
  show "appendXPos t x =
           (if xPos t = [] \<or> Max (set (xPos t)) < x
            then Inr (t\<lparr>samples := samples t @ [[]], xPos := xPos t @ [x]\<rparr>, length (xPos t))
            else if x < Min (set (xPos t))
            then Inr (t\<lparr>samples := [] # samples t, xPos := x # xPos t\<rparr>, 0)
            else Inl InvalidArgument)"
  proof (cases "xPos t = []")
    case True
    then show ?thesis by (simp add: appendXPos_result[OF len])
  next
    case False
    from strict_sorted_last_Max[OF s False] strict_sorted_hd_Min[OF s False] False
    show ?thesis by (simp add: appendXPos_result[OF len])
  qed
  assume "0 \<le> i \<and> i < numX t"
  then have i: "0 \<le> i" "i < numX t" by simp_all
  let ?col = "samples t ! nat i"
  have "nat i < length (samples t)" using i len by (simp add: numX_def)
  then have sc: "sorted_wrt (<) (map get1 ?col)" using all by (simp add: list_all_length)
  show "appendSamplePoint checked t i y v =
             (let col = samples t ! nat i; p = (xPos t ! nat i, y, v) in
              if col = [] \<or> Max (get1 ` set col) < y
              then Inr (t\<lparr>samples := (samples t)[nat i := col @ [p]]\<rparr>, length col)
              else if y < Min (get1 ` set col)
              then Inr (t\<lparr>samples := (samples t)[nat i := p # col]\<rparr>, 0)
              else Inl InvalidArgument)"
  proof (cases "?col = []")
    case True
    then show ?thesis by (simp add: appendSamplePoint_result[OF i] Let_def)
  next
    case False
    then have ne: "map get1 ?col \<noteq> []" by simp
    from strict_sorted_last_Max[OF sc ne] strict_sorted_hd_Min[OF sc ne] False
    have "get1 (last ?col) = Max (get1 ` set ?col)" "get1 (hd ?col) = Min (get1 ` set ?col)"
      by (simp_all add: last_map hd_map)
    then show ?thesis using False by (simp add: appendSamplePoint_result[OF i] Let_def)
  qed
qed

theorem C6_append_rules_witness:
  "appendXPos example_table 2 =
     Inr (\<lparr>samples = samples example_table @ [[]], xPos = [0, 1, 2]\<rparr>, 2) \<and>
   appendXPos example_table (-1) =
     Inr (\<lparr>samples = [] # samples example_table, xPos = [-1, 0, 1]\<rparr>, 0) \<and>
   appendXPos example_table (1 / 2) = Inl InvalidArgument \<and>
   appendSamplePoint True example_table 1 2 7 =
     Inr (\<lparr>samples = [[(0, 0, 0), (0, 1, 1)], [(1, 0, 2), (1, 1, 3), (1, 2, 7)]],
           xPos = [0, 1]\<rparr>, 2) \<and>
   appendSamplePoint True example_table 1 (1 / 2) 7 = Inl InvalidArgument"
  using C6_append_rules[OF example_table_ready[THEN conjunct1], of 2 1 True 2 7]
    C6_append_rules[OF example_table_ready[THEN conjunct1], of "-1" 1 True "1 / 2" 7]
    C6_append_rules[OF example_table_ready[THEN conjunct1], of "1 / 2" 0 True 2 7]
  by (simp add: example_table_def numX_def get1_def Let_def)

text \<open>
  Claim C7. The empty table satisfies the invariant and every successful \<^verbatim>\<open>appendXPos\<close> and
  \<^verbatim>\<open>appendSamplePoint\<close> preserves it: the x-positions stay strictly monotonic (ascending) and so
  do the y-positions of every column. Feeding strictly increasing x-positions in this order or
  in the reverse order succeeds and leaves the same ascending sequence; likewise for the
  \<open>(y, value)\<close> pairs fed into an empty column.
\<close>

theorem C7_monotone_storage:
  "table_inv empty_table \<and>
   (table_inv t \<and> appendXPos t x = Inr (t', k) \<longrightarrow> table_inv t') \<and>
   (table_inv t \<and> appendSamplePoint checked t i y v = Inr (t'', k') \<longrightarrow> table_inv t'') \<and>
   (sorted_wrt (<) xs \<longrightarrow>
      appendXPos_list empty_table xs = Inr \<lparr>samples = replicate (length xs) [], xPos = xs\<rparr> \<and>
      appendXPos_list empty_table (rev xs) =
        Inr \<lparr>samples = replicate (length xs) [], xPos = xs\<rparr>) \<and>
   (table_inv u \<and> 0 \<le> c \<and> c < numX u \<and> samples u ! nat c = [] \<and>
    sorted_wrt (<) (map fst ps) \<longrightarrow>
      appendSamplePoint_list checked u c ps =
        Inr (u\<lparr>samples := (samples u)[nat c := map (\<lambda>(y, v). (xPos u ! nat c, y, v)) ps]\<rparr>) \<and>
      appendSamplePoint_list checked u c (rev ps) =
        Inr (u\<lparr>samples := (samples u)[nat c := map (\<lambda>(y, v). (xPos u ! nat c, y, v)) ps]\<rparr>))"
proof (intro conjI impI; (elim conjE)?)
  show "table_inv empty_table" by (simp add: table_inv_def empty_table_def)
  show "table_inv t'" if "table_inv t" "appendXPos t x = Inr (t', k)"
    using that by (rule appendXPos_inv)
  show "table_inv t''" if "table_inv t" "appendSamplePoint checked t i y v = Inr (t'', k')"
    using that by (rule appendSamplePoint_inv)
  show "appendXPos_list empty_table xs = Inr \<lparr>samples = replicate (length xs) [], xPos = xs\<rparr>"
    if "sorted_wrt (<) xs"
    using appendXPos_list_ascending[of empty_table xs] that by (simp add: empty_table_def)
  show "appendXPos_list empty_table (rev xs) =
        Inr \<lparr>samples = replicate (length xs) [], xPos = xs\<rparr>"
    if "sorted_wrt (<) xs"
    using appendXPos_list_descending[of empty_table "rev xs"] that by (simp add: empty_table_def)
  assume u: "table_inv u" "0 \<le> c" "c < numX u" "samples u ! nat c = []"
    "sorted_wrt (<) (map fst ps)"
  have len: "length (samples u) = length (xPos u)" using u(1) by (simp add: table_inv_def)
  show "appendSamplePoint_list checked u c ps =
        Inr (u\<lparr>samples := (samples u)[nat c := map (\<lambda>(y, v). (xPos u ! nat c, y, v)) ps]\<rparr>)"
    using appendSamplePoint_list_ascending[OF u(2,3) len, of ps checked] u(4,5) by simp
  show "appendSamplePoint_list checked u c (rev ps) =
        Inr (u\<lparr>samples := (samples u)[nat c := map (\<lambda>(y, v). (xPos u ! nat c, y, v)) ps]\<rparr>)"
    using appendSamplePoint_list_descending[OF u(2,3) len, of "rev ps" checked] u(4,5)
    by (simp add: rev_map)
qed

theorem C7_monotone_storage_witness:
  "table_inv \<lparr>samples = [[], []], xPos = [0, 1]\<rparr> \<and>
   table_inv \<lparr>samples = [[(0, 0, 5)]], xPos = [0]\<rparr> \<and>
   appendXPos_list empty_table [0, 1, 2] = Inr \<lparr>samples = [[], [], []], xPos = [0, 1, 2]\<rparr> \<and>
   appendXPos_list empty_table [2, 1, 0] = Inr \<lparr>samples = [[], [], []], xPos = [0, 1, 2]\<rparr> \<and>
   appendSamplePoint_list True \<lparr>samples = [[], []], xPos = [0, 1]\<rparr> 1 [(0, 2), (1, 3)] =
     Inr \<lparr>samples = [[], [(1, 0, 2), (1, 1, 3)]], xPos = [0, 1]\<rparr> \<and>
   appendSamplePoint_list True \<lparr>samples = [[], []], xPos = [0, 1]\<rparr> 1 [(1, 3), (0, 2)] =
     Inr \<lparr>samples = [[], [(1, 0, 2), (1, 1, 3)]], xPos = [0, 1]\<rparr>"
  using C7_monotone_storage[where t = "\<lparr>samples = [[]], xPos = [0]\<rparr>" and x = 1
      and t' = "\<lparr>samples = [[], []], xPos = [0, 1]\<rparr>" and k = 1
      and checked = True and i = 0 and y = 0 and v = 5
      and t'' = "\<lparr>samples = [[(0, 0, 5)]], xPos = [0]\<rparr>" and k' = 0
      and xs = "[0, 1, 2]"
      and u = "\<lparr>samples = [[], []], xPos = [0, 1]\<rparr>" and c = 1
      and ps = "[(0, 2), (1, 3)]"]
  by (simp add: build_defs table_inv_def Let_def)

section \<open>The position-to-index mapping\<close>

lemma strict_sorted_nth_less:
  fixes xs :: "real list"
  shows "sorted_wrt (<) xs \<Longrightarrow> i < j \<Longrightarrow> j < length xs \<Longrightarrow> xs ! i < xs ! j"
  by (simp add: sorted_wrt_nth_less)

lemma strict_sorted_nth_le:
  fixes xs :: "real list"
  assumes "sorted_wrt (<) xs" "i \<le> j" "j < length xs"
  shows "xs ! i \<le> xs ! j"
  using strict_sorted_nth_less[OF assms(1), of i j] assms(2,3) by (cases "i = j") auto

lemma strict_sorted_nth_le_iff:
  fixes xs :: "real list"
  assumes "sorted_wrt (<) xs" "i < length xs" "j < length xs"
  shows "xs ! i \<le> xs ! j \<longleftrightarrow> i \<le> j"
  using strict_sorted_nth_less[OF assms(1), of j i] strict_sorted_nth_le[OF assms(1), of i j] assms(2,3)
  by (cases "i \<le> j") auto

lemma xToI_segment_spec:
  assumes s: "sorted_wrt (<) (xPos t)" and n: "2 \<le> length (xPos t)"
  shows "\<exists>seg. xToI_segment checked t x = Inr seg \<and> bracketed (xPos t) seg x \<and>
     (x \<le> xPos t ! 1 \<longrightarrow> seg = 0) \<and>
     (\<not> x \<le> xPos t ! 1 \<and> xPos t ! (length (xPos t) - 2) \<le> x \<longrightarrow>
        seg = int (length (xPos t)) - 2) \<and>
     (\<not> x \<le> xPos t ! 1 \<and> \<not> xPos t ! (length (xPos t) - 2) \<le> x \<longrightarrow>
        1 \<le> seg \<and> seg \<le> int (length (xPos t)) - 3 \<and>
        xPos t ! nat seg \<le> x \<and> x < xPos t ! nat (seg + 1))"
proof -
  let ?xs = "xPos t" and ?n = "length (xPos t)"
  consider (first) "x \<le> ?xs ! 1" | (last) "\<not> x \<le> ?xs ! 1" "?xs ! (?n - 2) \<le> x"
    | (mid) "\<not> x \<le> ?xs ! 1" "\<not> ?xs ! (?n - 2) \<le> x" by blast
  then show ?thesis
  proof cases
    case first
    then show ?thesis using n by (simp add: xToI_segment_def bracketed_def)
  next
    case last
    have "nat (int ?n - 2) = ?n - 2" by simp
    with last show ?thesis using n by (simp add: xToI_segment_def bracketed_def)
  next
    case mid
    have "\<not> ?n - 2 \<le> 1"
    proof
      assume "?n - 2 \<le> 1"
      then have "?xs ! (?n - 2) \<le> ?xs ! 1" using n by (intro strict_sorted_nth_le[OF s]) simp_all
      with mid show False by simp
    qed
    then have lohi: "(1::int) < int ?n - 2" by simp
    define seg where "seg = xToI_bisect ?xs x 1 (int ?n - 2)"
    from xToI_bisect_spec[OF lohi, of ?xs x, folded seg_def]
    have b: "1 \<le> seg" "seg < int ?n - 2" "seg = 1 \<or> ?xs ! nat seg \<le> x"
      "seg + 1 = int ?n - 2 \<or> x < ?xs ! nat (seg + 1)" by simp_all
    have lo: "?xs ! nat seg \<le> x" using b(3) mid(1) by auto
    have hi: "x < ?xs ! nat (seg + 1)"
    proof (cases "seg + 1 = int ?n - 2")
      case True
      then have "nat (seg + 1) = ?n - 2" by linarith
      with mid(2) show ?thesis by simp
    next
      case False
      with b(4) show ?thesis by simp
    qed
    have "xToI_segment checked t x = Inr seg"
      using mid lo hi by (simp add: xToI_segment_def seg_def[symmetric] Let_def)
    then show ?thesis using mid lo hi b(1,2) by (simp add: bracketed_def)
  qed
qed

lemma xToI_result:
  assumes "2 \<le> length (xPos t)"
  shows "xToI checked t x extrapolate =
     (if checked \<and> \<not> (extrapolate \<or> (xMin t \<le> x \<and> x \<le> xMax t)) then Inl AssertionFailed
      else (case xToI_segment checked t x of
              Inl e \<Rightarrow> Inl e
            | Inr seg \<Rightarrow> Inr (interval_position (xPos t) seg x)))"
  using assms by (auto simp: xToI_def interval_position_def Let_def split: sum.splits)

lemma interval_position_bounds:
  fixes xs :: "real list"
  assumes s: "sorted_wrt (<) xs" and b: "bracketed xs seg x"
  shows "1 \<le> seg \<Longrightarrow> real_of_int seg \<le> interval_position xs seg x"
    and "seg \<le> int (length xs) - 3 \<Longrightarrow> interval_position xs seg x \<le> real_of_int seg + 1"
proof -
  have r: "0 \<le> seg" "seg \<le> int (length xs) - 2" using b by (simp_all add: bracketed_def)
  have "xs ! nat seg < xs ! nat (seg + 1)"
    using r by (intro strict_sorted_nth_less[OF s]) auto
  then have d: "0 < xs ! nat (seg + 1) - xs ! nat seg" by simp
  {
    assume "1 \<le> seg"
    then have "xs ! nat seg \<le> x" using b by (simp add: bracketed_def)
    then have "0 \<le> (x - xs ! nat seg) / (xs ! nat (seg + 1) - xs ! nat seg)"
      using d by simp
    then show "real_of_int seg \<le> interval_position xs seg x"
      by (simp add: interval_position_def)
  }
  {
    assume "seg \<le> int (length xs) - 3"
    then have "x \<le> xs ! nat (seg + 1)" using b by (simp add: bracketed_def)
    then have "(x - xs ! nat seg) / (xs ! nat (seg + 1) - xs ! nat seg) \<le> 1"
      using d by simp
    then show "interval_position xs seg x \<le> real_of_int seg + 1"
      by (simp add: interval_position_def)
  }
qed

lemma interval_position_mono:
  fixes xs :: "real list"
  assumes s: "sorted_wrt (<) xs"
    and b: "bracketed xs seg x" and b': "bracketed xs seg' x'" and le: "x \<le> x'"
  shows "interval_position xs seg x \<le> interval_position xs seg' x'"
proof -
  have r: "0 \<le> seg" "seg \<le> int (length xs) - 2" "0 \<le> seg'" "seg' \<le> int (length xs) - 2"
    using b b' by (simp_all add: bracketed_def)
  consider (eq) "seg = seg'" | (lt) "seg < seg'" | (gt) "seg' < seg" by linarith
  then show ?thesis
  proof cases
    case eq
    have "xs ! nat seg < xs ! nat (seg + 1)"
      using r by (intro strict_sorted_nth_less[OF s]) auto
    then have "0 < xs ! nat (seg + 1) - xs ! nat seg" by simp
    then have "(x - xs ! nat seg) / (xs ! nat (seg + 1) - xs ! nat seg)
        \<le> (x' - xs ! nat seg) / (xs ! nat (seg + 1) - xs ! nat seg)"
      using le by (simp add: divide_right_mono)
    then show ?thesis by (simp add: interval_position_def eq[symmetric])
  next
    case lt
    have "interval_position xs seg x \<le> real_of_int seg + 1"
      using interval_position_bounds(2)[OF s b] lt r by simp
    also have "\<dots> \<le> real_of_int seg'" using lt by linarith
    also have "\<dots> \<le> interval_position xs seg' x'"
      using interval_position_bounds(1)[OF s b'] lt r by simp
    finally show ?thesis .
  next
    case gt
    have 1: "xs ! nat seg \<le> x" using b gt r by (simp add: bracketed_def)
    have 2: "x' \<le> xs ! nat (seg' + 1)" using b' gt r by (simp add: bracketed_def)
    have 3: "xs ! nat (seg' + 1) \<le> xs ! nat seg"
      using gt r by (intro strict_sorted_nth_le[OF s]) auto
    from 1 2 3 le have e: "xs ! nat seg \<le> xs ! nat (seg' + 1)" "x = xs ! nat seg" "x' = xs ! nat (seg' + 1)"
      by simp_all
    have "nat seg \<le> nat (seg' + 1)"
      using e(1) r gt by (subst (asm) strict_sorted_nth_le_iff[OF s]) auto
    then have seg: "seg = seg' + 1" using gt r by linarith
    have "xs ! nat seg' < xs ! nat (seg' + 1)"
      using r gt by (intro strict_sorted_nth_less[OF s]) auto
    then have "interval_position xs seg' x' = real_of_int seg' + 1"
      by (simp add: interval_position_def e(3))
    moreover have "interval_position xs seg x = real_of_int seg"
      by (simp add: interval_position_def e(2))
    ultimately show ?thesis using seg by simp
  qed
qed

lemma interval_position_node:
  fixes xs :: "real list"
  assumes s: "sorted_wrt (<) xs" and b: "bracketed xs seg (xs ! k)" and k: "k < length xs"
  shows "interval_position xs seg (xs ! k) = real k"
proof -
  have r: "0 \<le> seg" "seg \<le> int (length xs) - 2"
    using b by (simp_all add: bracketed_def)
  have lo: "nat seg \<le> k"
  proof (cases "1 \<le> seg")
    case True
    then have "xs ! nat seg \<le> xs ! k" using b by (simp add: bracketed_def)
    then show ?thesis using r k by (subst (asm) strict_sorted_nth_le_iff[OF s]) auto
  next
    case False
    then show ?thesis using r by simp
  qed
  have hi: "k \<le> nat (seg + 1)"
  proof (cases "seg \<le> int (length xs) - 3")
    case True
    then have "xs ! k \<le> xs ! nat (seg + 1)" using b by (simp add: bracketed_def)
    then show ?thesis using r k True by (subst (asm) strict_sorted_nth_le_iff[OF s]) auto
  next
    case False
    then show ?thesis using r k by linarith
  qed
  have d: "xs ! nat seg < xs ! nat (seg + 1)"
    using r by (intro strict_sorted_nth_less[OF s]) auto
  from lo hi r consider "k = nat seg" | "k = nat (seg + 1)" by linarith
  then show ?thesis
  proof cases
    case 1
    then show ?thesis using r by (simp add: interval_position_def)
  next
    case 2
    then show ?thesis using r d by (simp add: interval_position_def)
  qed
qed

lemma yToJ_halving_bracketed:
  assumes m: "2 \<le> length col"
  shows "bracketed (map get1 col) (yToJ_halving col y 0 (int (length col) - 1)) y"
proof -
  define l where "l = yToJ_halving col y 0 (int (length col) - 1)"
  have "(0::int) < int (length col) - 1" using m by simp
  from yToJ_halving_spec[OF this, of col y, folded l_def]
  have b: "0 \<le> l" "l < int (length col) - 1" "l = 0 \<or> get1 (col ! nat l) \<le> y"
    "l + 1 = int (length col) - 1 \<or> y < get1 (col ! nat (l + 1))" by simp_all
  have "1 \<le> l \<longrightarrow> map get1 col ! nat l \<le> y" using b by auto
  moreover have "l \<le> int (length col) - 3 \<longrightarrow> y \<le> map get1 col ! nat (l + 1)"
    using b by auto
  ultimately show ?thesis using b(1,2) unfolding l_def[symmetric] bracketed_def by simp
qed

lemma yToJ_result:
  assumes m: "2 \<le> length col" and i: "0 \<le> i" "i < numX t"
    and len: "length (samples t) = length (xPos t)" and col: "samples t ! nat i = col"
  shows "yToJ checked t i y extrapolate =
     (if checked \<and> \<not> (extrapolate \<or> (get1 (hd col) \<le> y \<and> y \<le> get1 (last col)))
      then Inl AssertionFailed
      else Inr (interval_position (map get1 col)
                  (yToJ_halving col y 0 (int (length col) - 1)) y))"
proof -
  define l where "l = yToJ_halving col y 0 (int (length col) - 1)"
  have "(0::int) < int (length col) - 1" using m by simp
  from yToJ_halving_spec[OF this, of col y, folded l_def]
  have b: "0 \<le> l" "l < int (length col) - 1" "l = 0 \<or> get1 (col ! nat l) \<le> y"
    "l + 1 = int (length col) - 1 \<or> y < get1 (col ! nat (l + 1))" by simp_all
  have at: "vector_at (samples t) i = Inr col"
    using i len col by (simp add: vector_at_def numX_def)
  have ne: "col \<noteq> []" using m by auto
  have ip: "interval_position (map get1 col) l y =
      real_of_int l + (y - get1 (col ! nat l)) / (get1 (col ! nat (l + 1)) - get1 (col ! nat l))"
    using b by (simp add: interval_position_def)
  show ?thesis
  proof (cases "checked \<and> \<not> (extrapolate \<or> (get1 (hd col) \<le> y \<and> y \<le> get1 (last col)))")
    case True
    then show ?thesis using i at by (simp add: yToJ_def)
  next
    case False
    have a1: "checked \<Longrightarrow> get1 (col ! nat l) \<le> y \<or> (extrapolate \<and> l = 0)"
    proof -
      assume c: checked
      show ?thesis
      proof (cases "l = 0")
        case True
        with False c ne show ?thesis by (auto simp: hd_conv_nth)
      next
        case False
        with b(3) show ?thesis by simp
      qed
    qed
    have a2: "checked \<Longrightarrow> y \<le> get1 (col ! nat (l + 1)) \<or> (extrapolate \<and> l = int (length col) - 2)"
    proof -
      assume c: checked
      show ?thesis
      proof (cases "l + 1 = int (length col) - 1")
        case True
        then have "nat (l + 1) = length col - 1" by linarith
        with False c ne True show ?thesis by (auto simp: last_conv_nth)
      next
        case False
        with b(4) show ?thesis by simp
      qed
    qed
    show ?thesis
      using False i at a1 a2 unfolding ip[unfolded l_def]
      by (auto simp: yToJ_def Let_def l_def[symmetric])
  qed
qed

text \<open>
  Claim C8. On a table with at least two columns, and for \<open>x\<close> within \<open>[xMin, xMax]\<close> unless
  \<^verbatim>\<open>extrapolate\<close> is set, \<^verbatim>\<open>xToI\<close> returns
  \<open>segmentIdx + (x - xPos[segmentIdx]) / (xPos[segmentIdx + 1] - xPos[segmentIdx])\<close>, where
  \<open>segmentIdx\<close> is 0 if \<open>x\<close> is at most the second x-sample, else \<open>numX - 2\<close> if \<open>x\<close> is at
  least the second-to-last x-sample, and else the result of the bisection, which satisfies
  \<open>xPos[segmentIdx] \<le> x \<le> xPos[segmentIdx + 1]\<close>. The first test has priority over the
  second; where both hold (at most three columns) the returned value is the one of the last
  interval all the same.
\<close>

theorem C8_xToI_interval:
  assumes "table_inv t" "2 \<le> numX t" "extrapolate \<or> (xMin t \<le> x \<and> x \<le> xMax t)"
  shows "\<exists>seg. xToI_segment checked t x = Inr seg \<and>
     xToI checked t x extrapolate =
       Inr (real_of_int seg + (x - xAt t seg) / (xAt t (seg + 1) - xAt t seg)) \<and>
     (x \<le> xAt t 1 \<longrightarrow> seg = 0) \<and>
     (xAt t 1 < x \<and> xAt t (numX t - 2) \<le> x \<longrightarrow> seg = numX t - 2) \<and>
     (xAt t (numX t - 2) \<le> x \<longrightarrow>
        xToI checked t x extrapolate =
          Inr (real_of_int (numX t - 2)
               + (x - xAt t (numX t - 2)) / (xAt t (numX t - 1) - xAt t (numX t - 2)))) \<and>
     (xAt t 1 < x \<and> x < xAt t (numX t - 2) \<longrightarrow>
        1 \<le> seg \<and> seg \<le> numX t - 3 \<and> xAt t seg \<le> x \<and> x \<le> xAt t (seg + 1))"
proof -
  let ?xs = "xPos t" and ?n = "length (xPos t)"
  have s: "sorted_wrt (<) ?xs" using assms(1) by (simp add: table_inv_def)
  have n: "2 \<le> ?n" using assms(2) by (simp add: numX_def)
  have n2: "nat (numX t - 2) = ?n - 2" "nat (numX t - 1) = ?n - 1" "nat (numX t - 2 + 1) = ?n - 1"
    using n by (simp_all add: numX_def)
  from xToI_segment_spec[OF s n, of checked x] obtain seg where
    seg: "xToI_segment checked t x = Inr seg" and b: "bracketed ?xs seg x"
    and c1: "x \<le> ?xs ! 1 \<longrightarrow> seg = 0"
    and c2: "\<not> x \<le> ?xs ! 1 \<and> ?xs ! (?n - 2) \<le> x \<longrightarrow> seg = int ?n - 2"
    and c3: "\<not> x \<le> ?xs ! 1 \<and> \<not> ?xs ! (?n - 2) \<le> x \<longrightarrow>
        1 \<le> seg \<and> seg \<le> int ?n - 3 \<and> ?xs ! nat seg \<le> x \<and> x < ?xs ! nat (seg + 1)"
    by blast
  have res: "xToI checked t x extrapolate = Inr (interval_position ?xs seg x)"
    using assms(3) seg by (simp add: xToI_result[OF n])
  have last: "interval_position ?xs seg x = interval_position ?xs (numX t - 2) x"
    if ge: "?xs ! (?n - 2) \<le> x"
  proof (cases "x \<le> ?xs ! 1")
    case False
    with ge c2 show ?thesis by (simp add: numX_def)
  next
    case True
    then have seg0: "seg = 0" using c1 by simp
    have "?xs ! (?n - 2) \<le> ?xs ! 1" using True ge by simp
    then have "?n - 2 \<le> 1" using n by (subst (asm) strict_sorted_nth_le_iff[OF s]) auto
    then consider "?n = 2" | "?n = 3" using n by linarith
    then show ?thesis
    proof cases
      case 1
      then show ?thesis using seg0 by (simp add: numX_def)
    next
      case 2
      then have x: "x = ?xs ! 1" using True ge by simp
      have "?xs ! 0 < ?xs ! 1" using 2 by (intro strict_sorted_nth_less[OF s]) auto
      then have "interval_position ?xs 0 x = 1" by (simp add: interval_position_def x)
      moreover have "interval_position ?xs 1 x = 1" by (simp add: interval_position_def x)
      ultimately show ?thesis using seg0 2 by (simp add: numX_def)
    qed
  qed
  show ?thesis
  proof (intro exI[of _ seg] conjI impI)
    show "xToI_segment checked t x = Inr seg" by (rule seg)
    show "xToI checked t x extrapolate =
       Inr (real_of_int seg + (x - xAt t seg) / (xAt t (seg + 1) - xAt t seg))"
      using res by (simp add: interval_position_def xAt_def)
    show "seg = 0" if "x \<le> xAt t 1" using that c1 by (simp add: xAt_def)
    show "seg = numX t - 2" if "xAt t 1 < x \<and> xAt t (numX t - 2) \<le> x"
      using that c2 n2 by (simp add: xAt_def numX_def)
    show "xToI checked t x extrapolate =
          Inr (real_of_int (numX t - 2)
               + (x - xAt t (numX t - 2)) / (xAt t (numX t - 1) - xAt t (numX t - 2)))"
      if "xAt t (numX t - 2) \<le> x"
      using that res last n2 by (simp add: xAt_def interval_position_def)
    assume mid: "xAt t 1 < x \<and> x < xAt t (numX t - 2)"
    then have "\<not> x \<le> ?xs ! 1 \<and> \<not> ?xs ! (?n - 2) \<le> x" using n2 by (simp add: xAt_def)
    with c3 have m: "1 \<le> seg" "seg \<le> int ?n - 3" "?xs ! nat seg \<le> x" "x < ?xs ! nat (seg + 1)"
      by simp_all
    show "1 \<le> seg" by (rule m(1))
    show "seg \<le> numX t - 3" using m(2) by (simp add: numX_def)
    show "xAt t seg \<le> x" using m(3) by (simp add: xAt_def)
    show "x \<le> xAt t (seg + 1)" using m(4) by (simp add: xAt_def)
  qed
qed

lemma five_column_table_inv: "table_inv five_column_table"
  by (simp add: table_inv_def five_column_table_def)

theorem C8_xToI_interval_witness:
  "xToI_segment True five_column_table 3 = Inr 2 \<and> xToI True five_column_table 3 False = Inr (5 / 2) \<and>
   xToI_segment True five_column_table (1 / 2) = Inr 0 \<and> xToI True five_column_table (1 / 2) False = Inr (1 / 2) \<and>
   xToI_segment True five_column_table 6 = Inr 3 \<and> xToI True five_column_table 6 False = Inr (7 / 2) \<and>
   xToI True five_column_table 12 True = Inr 5"
  using C8_xToI_interval[OF five_column_table_inv, of False 3 True]
    C8_xToI_interval[OF five_column_table_inv, of False "1 / 2" True]
    C8_xToI_interval[OF five_column_table_inv, of False 6 True]
    C8_xToI_interval[OF five_column_table_inv, of True 12 True]
  by (simp add: five_column_table_def query_defs Let_def)

lemma query_ready_column:
  assumes "table_inv t" "query_ready t" "0 \<le> i" "i < numX t"
  shows "2 \<le> length (samples t ! nat i)" "sorted_wrt (<) (map get1 (samples t ! nat i))"
    "vector_at (samples t) i = Inr (samples t ! nat i)"
proof -
  have "nat i < length (samples t)" using assms by (simp add: table_inv_def numX_def)
  then show "2 \<le> length (samples t ! nat i)" "sorted_wrt (<) (map get1 (samples t ! nat i))"
    "vector_at (samples t) i = Inr (samples t ! nat i)"
    using assms by (simp_all add: table_inv_def query_ready_def list_all_length vector_at_def)
qed

text \<open>
  Claim C9. On a query-ready table \<^verbatim>\<open>xToI\<close> is non-decreasing in \<open>x\<close>, and for every valid
  column \<open>i\<close>, \<^verbatim>\<open>yToJ(i, y)\<close> is non-decreasing in \<open>y\<close>: for two coordinates in this order
  (within the tabulated range unless \<^verbatim>\<open>extrapolate\<close> is set) both calls return, and the results
  are in the same order.
\<close>

theorem C9_monotone_mapping:
  assumes "table_inv t" "query_ready t"
  shows "(x \<le> x' \<and> (extrapolate \<or> (xMin t \<le> x \<and> x' \<le> xMax t)) \<longrightarrow>
            (\<exists>a b. xToI checked t x extrapolate = Inr a \<and>
                   xToI checked t x' extrapolate = Inr b \<and> a \<le> b)) \<and>
         (0 \<le> i \<and> i < numX t \<and> y \<le> y' \<and>
          (extrapolate \<or> (\<exists>lo hi. yMin t i = Inr lo \<and> yMax t i = Inr hi \<and> lo \<le> y \<and> y' \<le> hi)) \<longrightarrow>
            (\<exists>a b. yToJ checked t i y extrapolate = Inr a \<and>
                   yToJ checked t i y' extrapolate = Inr b \<and> a \<le> b))"
proof (intro conjI impI; elim conjE)
  have s: "sorted_wrt (<) (xPos t)" and len: "length (samples t) = length (xPos t)"
    using assms(1) by (simp_all add: table_inv_def)
  have n: "2 \<le> length (xPos t)" using assms(2) by (simp add: query_ready_def)
  {
    assume le: "x \<le> x'" and r: "extrapolate \<or> (xMin t \<le> x \<and> x' \<le> xMax t)"
    from xToI_segment_spec[OF s n, of checked x] obtain seg where
      seg: "xToI_segment checked t x = Inr seg" "bracketed (xPos t) seg x" by blast
    from xToI_segment_spec[OF s n, of checked x'] obtain seg' where
      seg': "xToI_segment checked t x' = Inr seg'" "bracketed (xPos t) seg' x'" by blast
    have "xToI checked t x extrapolate = Inr (interval_position (xPos t) seg x)"
      using r le seg(1) by (auto simp: xToI_result[OF n])
    moreover have "xToI checked t x' extrapolate = Inr (interval_position (xPos t) seg' x')"
      using r le seg'(1) by (auto simp: xToI_result[OF n])
    moreover note interval_position_mono[OF s seg(2) seg'(2) le]
    ultimately show "\<exists>a b. xToI checked t x extrapolate = Inr a \<and>
                   xToI checked t x' extrapolate = Inr b \<and> a \<le> b" by blast
  }
  {
    assume i: "0 \<le> i" "i < numX t" and le: "y \<le> y'"
      and r: "extrapolate \<or> (\<exists>lo hi. yMin t i = Inr lo \<and> yMax t i = Inr hi \<and> lo \<le> y \<and> y' \<le> hi)"
    let ?col = "samples t ! nat i"
    note c = query_ready_column[OF assms i]
    have r': "extrapolate \<or> (get1 (hd ?col) \<le> y \<and> y' \<le> get1 (last ?col))"
      using r c(3) by (auto simp: yMin_def yMax_def)
    let ?l = "yToJ_halving ?col y 0 (int (length ?col) - 1)"
    let ?l' = "yToJ_halving ?col y' 0 (int (length ?col) - 1)"
    have "yToJ checked t i y extrapolate = Inr (interval_position (map get1 ?col) ?l y)"
      using r' le by (auto simp: yToJ_result[OF c(1) i len refl])
    moreover have "yToJ checked t i y' extrapolate = Inr (interval_position (map get1 ?col) ?l' y')"
      using r' le by (auto simp: yToJ_result[OF c(1) i len refl])
    moreover note interval_position_mono[OF c(2) yToJ_halving_bracketed[OF c(1)]
        yToJ_halving_bracketed[OF c(1)] le]
    ultimately show "\<exists>a b. yToJ checked t i y extrapolate = Inr a \<and>
                   yToJ checked t i y' extrapolate = Inr b \<and> a \<le> b" by blast
  }
qed

theorem C9_monotone_mapping_witness:
  "xToI True jagged_table (1 / 4) False = Inr (1 / 4) \<and>
   xToI True jagged_table (3 / 4) False = Inr (3 / 4) \<and>
   yToJ True jagged_table 1 1 False = Inr (1 / 3) \<and>
   yToJ True jagged_table 1 2 False = Inr (2 / 3) \<and>
   xToI True jagged_table (-2) True = Inr (-2) \<and>
   xToI True jagged_table 5 True = Inr 5 \<and>
   yToJ True jagged_table 1 (-3) True = Inr (-1) \<and>
   yToJ True jagged_table 1 6 True = Inr 2"
  using C9_monotone_mapping[OF jagged_table_ready[THEN conjunct1] jagged_table_ready[THEN conjunct2],
      where x = "1 / 4" and x' = "3 / 4" and extrapolate = False and checked = True
        and i = 1 and y = 1 and y' = 2]
    C9_monotone_mapping[OF jagged_table_ready[THEN conjunct1] jagged_table_ready[THEN conjunct2],
      where x = "-2" and x' = 5 and extrapolate = True and checked = True
        and i = 1 and y = "-3" and y' = 6]
  by (simp add: jagged_table_def query_defs yMin_def yMax_def Let_def)

section \<open>Evaluation\<close>

lemma eval_eq_cell:
  "eval checked t x y extrapolate =
     (case eval_check checked t x y extrapolate of
        Inl e \<Rightarrow> Inl e
      | Inr u \<Rightarrow>
          (case eval_cell checked t x y extrapolate of
             Inl e \<Rightarrow> Inl e
           | Inr (i, j1, j2, alpha, beta1, beta2) \<Rightarrow> Inr (spec_blend t i j1 j2 alpha beta1 beta2)))"
  by (simp add: eval_def eval_cell_def bracket_def spec_blend_def Let_def split: sum.splits)

lemma Evaluation_blend:
  assumes "length db = n"
  shows "Evaluation_plus
           (Evaluation_scale v1 (Evaluation_one_minus \<lparr>val = b, derivatives = db\<rparr>))
           (Evaluation_scale v2 \<lparr>val = b, derivatives = db\<rparr>)
         = \<lparr>val = v1 * (1 - b) + v2 * b,
            derivatives = map (\<lambda>k. (v2 - v1) * db ! k) [0..<n]\<rparr>"
  using assms
  by (simp add: Evaluation_plus_def Evaluation_scale_def Evaluation_one_minus_def algebra_simps)

lemma Evaluation_combine:
  assumes "length d1 = n" "length d2 = n" "length da = n"
  shows "Evaluation_plus
           (Evaluation_times \<lparr>val = s1, derivatives = d1\<rparr>
              (Evaluation_one_minus \<lparr>val = a, derivatives = da\<rparr>))
           (Evaluation_times \<lparr>val = s2, derivatives = d2\<rparr> \<lparr>val = a, derivatives = da\<rparr>)
         = \<lparr>val = s1 * (1 - a) + s2 * a,
            derivatives = map (\<lambda>k. d1 ! k * (1 - a) + d2 ! k * a + (s2 - s1) * da ! k) [0..<n]\<rparr>"
  using assms
  by (simp add: Evaluation_plus_def Evaluation_times_def Evaluation_one_minus_def algebra_simps)

lemma eval_Evaluation_eq_cell:
  "eval_Evaluation checked t X Y extrapolate =
     (case eval_check checked t (val X) (val Y) extrapolate of
        Inl e \<Rightarrow> Inl e
      | Inr u \<Rightarrow>
          (case eval_cell checked t (val X) (val Y) extrapolate of
             Inl e \<Rightarrow> Inl e
           | Inr (i, j1, j2, alpha, beta1, beta2) \<Rightarrow>
               Inr \<lparr>val = spec_blend t i j1 j2 alpha beta1 beta2,
                    derivatives =
                      map (\<lambda>k. spec_blend_derivative t i j1 j2 alpha beta1 beta2
                                 (derivatives X ! k) (derivatives Y ! k))
                          [0..<length (derivatives X)]\<rparr>))"
  by (simp add: eval_Evaluation_def eval_cell_def bracket_def spec_blend_def
      spec_blend_derivative_def Let_def Evaluation_createConstant_def Evaluation_minus_int_def
      Evaluation_blend[where n = "length (derivatives X)"]
      Evaluation_combine[where n = "length (derivatives X)"]
      split: sum.splits)

lemma xToI_no_NumericalIssue: "xToI checked t x extrapolate \<noteq> Inl NumericalIssue"
  by (auto simp: xToI_def xToI_segment_def Let_def split: sum.splits if_splits)

lemma yToJ_no_NumericalIssue: "yToJ checked t i y extrapolate \<noteq> Inl NumericalIssue"
  by (auto simp: yToJ_def vector_at_def Let_def split: sum.splits if_splits)

lemma numY_no_NumericalIssue: "numY t i \<noteq> Inl NumericalIssue"
  by (auto simp: numY_def vector_at_def split: sum.splits if_splits)

lemma eval_cell_no_NumericalIssue: "eval_cell checked t x y extrapolate \<noteq> Inl NumericalIssue"
  using xToI_no_NumericalIssue[of checked t x extrapolate]
    yToJ_no_NumericalIssue[of checked t _ y extrapolate] numY_no_NumericalIssue[of t]
  by (auto simp: eval_cell_def Let_def split: sum.splits)

lemma applies_no_NumericalIssue: "applies checked t x y \<noteq> Inl NumericalIssue"
  using xToI_no_NumericalIssue[of checked t x False]
  by (auto simp: applies_def vector_at_def Let_def split: sum.splits if_splits)

lemma eval_check_NumericalIssue:
  "eval_check checked t x y extrapolate = Inl NumericalIssue \<longleftrightarrow>
     checked \<and> \<not> extrapolate \<and> applies checked t x y = Inr False"
  using applies_no_NumericalIssue[of checked t x y]
  by (auto simp: eval_check_def split: sum.splits)

lemma eval_NumericalIssue:
  "eval checked t x y extrapolate = Inl NumericalIssue \<longleftrightarrow>
     checked \<and> \<not> extrapolate \<and> applies checked t x y = Inr False"
  using eval_cell_no_NumericalIssue[of checked t x y extrapolate]
    eval_check_NumericalIssue[of checked t x y extrapolate]
  by (auto simp: eval_eq_cell split: sum.splits)

lemma eval_Evaluation_NumericalIssue:
  "eval_Evaluation checked t X Y extrapolate = Inl NumericalIssue \<longleftrightarrow>
     checked \<and> \<not> extrapolate \<and> applies checked t (val X) (val Y) = Inr False"
  using eval_cell_no_NumericalIssue[of checked t "val X" "val Y" extrapolate]
    eval_check_NumericalIssue[of checked t "val X" "val Y" extrapolate]
  by (auto simp: eval_Evaluation_eq_cell split: sum.splits)

lemma bracket_range: "2 \<le> n \<Longrightarrow> 0 \<le> bracket n r \<and> bracket n r \<le> n - 2"
  by (simp add: bracket_def)

lemma interval_position_range:
  fixes xs :: "real list"
  assumes s: "sorted_wrt (<) xs" and b: "bracketed xs seg x" and n: "2 \<le> length xs"
    and lo: "hd xs \<le> x" and hi: "x \<le> last xs"
  shows "0 \<le> interval_position xs seg x \<and> interval_position xs seg x \<le> real (length xs) - 1"
proof -
  have r: "0 \<le> seg" "seg \<le> int (length xs) - 2" using b by (simp_all add: bracketed_def)
  have ne: "xs \<noteq> []" using n by auto
  have d: "xs ! nat seg < xs ! nat (seg + 1)"
    using r by (intro strict_sorted_nth_less[OF s]) auto
  have "0 \<le> interval_position xs seg x"
  proof (cases "1 \<le> seg")
    case True
    from interval_position_bounds(1)[OF s b True] True show ?thesis by linarith
  next
    case False
    then have seg: "seg = 0" using r by simp
    have "xs ! 0 \<le> x" using lo ne by (simp add: hd_conv_nth)
    then have "0 \<le> (x - xs ! 0) / (xs ! nat (0 + 1) - xs ! 0)" using d seg by simp
    then show ?thesis by (simp add: interval_position_def seg)
  qed
  moreover have "interval_position xs seg x \<le> real (length xs) - 1"
  proof (cases "seg \<le> int (length xs) - 3")
    case True
    from interval_position_bounds(2)[OF s b True] True show ?thesis by linarith
  next
    case False
    then have seg: "seg = int (length xs) - 2" using r by simp
    then have "nat (seg + 1) = length xs - 1" using n by linarith
    then have "x \<le> xs ! nat (seg + 1)" using hi ne by (simp add: last_conv_nth)
    then have "(x - xs ! nat seg) / (xs ! nat (seg + 1) - xs ! nat seg) \<le> 1" using d by simp
    then have "interval_position xs seg x \<le> real_of_int seg + 1"
      by (simp add: interval_position_def)
    then show ?thesis using seg n by simp
  qed
  ultimately show ?thesis by simp
qed

lemma xToI_total:
  assumes "table_inv t" "2 \<le> length (xPos t)"
    and "extrapolate \<or> \<not> checked \<or> (xMin t \<le> x \<and> x \<le> xMax t)"
  shows "\<exists>seg. bracketed (xPos t) seg x \<and>
           xToI checked t x extrapolate = Inr (interval_position (xPos t) seg x)"
proof -
  have s: "sorted_wrt (<) (xPos t)" using assms(1) by (simp add: table_inv_def)
  from xToI_segment_spec[OF s assms(2), of checked x] obtain seg where
    "xToI_segment checked t x = Inr seg" "bracketed (xPos t) seg x" by blast
  then show ?thesis using assms(3) by (auto simp: xToI_result[OF assms(2)])
qed

lemma applies_result:
  assumes "table_inv t" "query_ready t" "numX t \<le> INT_MAX"
  shows "\<exists>a. (x < xMin t \<or> xMax t < x \<or> (xToI checked t x False = Inr a \<and>
                 0 \<le> static_cast_int a \<and> static_cast_int a < numX t)) \<and>
     applies checked t x y =
       Inr (xMin t \<le> x \<and> x \<le> xMax t \<and>
            get1 (hd (samples t ! nat (static_cast_int a))) \<le> y \<and>
            y \<le> get1 (last (samples t ! nat (static_cast_int a))))"
proof (cases "x < xMin t \<or> xMax t < x")
  case True
  then show ?thesis by (auto simp: applies_def)
next
  case False
  have s: "sorted_wrt (<) (xPos t)" and len: "length (samples t) = length (xPos t)"
    using assms(1) by (simp_all add: table_inv_def)
  have n: "2 \<le> length (xPos t)" using assms(2) by (simp add: query_ready_def)
  from False have r: "xMin t \<le> x" "x \<le> xMax t" by simp_all
  from xToI_total[OF assms(1) n, of False checked x] r obtain seg where
    seg: "bracketed (xPos t) seg x"
      "xToI checked t x False = Inr (interval_position (xPos t) seg x)" by blast
  define a where "a = interval_position (xPos t) seg x"
  from interval_position_range[OF s seg(1) n] r
  have a: "0 \<le> a" "a \<le> real (length (xPos t)) - 1" by (simp_all add: a_def xMin_def xMax_def)
  have "a < real_of_int (int (length (xPos t)))" using a(2) by simp
  then have "\<lfloor>a\<rfloor> < int (length (xPos t))" by (subst floor_less_iff)
  moreover have "int (length (xPos t)) \<le> INT_MAX" using assms(3) by (simp add: numX_def)
  moreover have "0 \<le> \<lfloor>a\<rfloor>" using a(1) by simp
  ultimately have c: "0 \<le> static_cast_int a" "static_cast_int a < numX t"
    using a(1) by (simp_all add: static_cast_int_def numX_def INT_MIN_def Let_def)
  then have at: "vector_at (samples t) (static_cast_int a) = Inr (samples t ! nat (static_cast_int a))"
    using len by (simp add: vector_at_def numX_def)
  have "applies checked t x y =
       Inr (xMin t \<le> x \<and> x \<le> xMax t \<and>
            get1 (hd (samples t ! nat (static_cast_int a))) \<le> y \<and>
            y \<le> get1 (last (samples t ! nat (static_cast_int a))))"
    using False r seg(2) at by (simp add: applies_def a_def[symmetric] Let_def algebra_simps)
  with c seg(2) show ?thesis unfolding a_def[symmetric] by blast
qed

lemma eval_cell_total:
  assumes "table_inv t" "query_ready t" "extrapolate \<or> \<not> checked"
  shows "\<exists>i j1 j2 alpha beta1 beta2 a b1 b2 n1 n2.
     eval_cell checked t x y extrapolate = Inr (i, j1, j2, alpha, beta1, beta2) \<and>
     xToI checked t x extrapolate = Inr a \<and> i = bracket (numX t) a \<and>
     0 \<le> i \<and> i \<le> numX t - 2 \<and> alpha = a - real_of_int i \<and>
     yToJ checked t i y extrapolate = Inr b1 \<and> numY t i = Inr n1 \<and> j1 = bracket n1 b1 \<and>
     0 \<le> j1 \<and> j1 \<le> n1 - 2 \<and> beta1 = b1 - real_of_int j1 \<and>
     yToJ checked t (i + 1) y extrapolate = Inr b2 \<and> numY t (i + 1) = Inr n2 \<and>
     j2 = bracket n2 b2 \<and> 0 \<le> j2 \<and> j2 \<le> n2 - 2 \<and> beta2 = b2 - real_of_int j2"
proof -
  have len: "length (samples t) = length (xPos t)"
    using assms(1) by (simp_all add: table_inv_def)
  have n: "2 \<le> length (xPos t)" using assms(2) by (simp add: query_ready_def)
  from xToI_total[OF assms(1) n, of extrapolate checked x] assms(3) obtain a where
    a: "xToI checked t x extrapolate = Inr a" by blast
  define i where "i = bracket (numX t) a"
  have i: "0 \<le> i" "i \<le> numX t - 2" "0 \<le> i + 1" "i < numX t" "i + 1 < numX t"
    using bracket_range[of "numX t" a] n by (simp_all add: i_def numX_def)
  note c1 = query_ready_column[OF assms(1,2) i(1,4)]
  note c2 = query_ready_column[OF assms(1,2) i(3,5)]
  let ?c1 = "samples t ! nat i" and ?c2 = "samples t ! nat (i + 1)"
  from yToJ_result[OF c1(1) i(1,4) len refl, of checked y extrapolate] assms(3) obtain b1 where
    b1: "yToJ checked t i y extrapolate = Inr b1" by auto
  from yToJ_result[OF c2(1) i(3,5) len refl, of checked y extrapolate] assms(3) obtain b2 where
    b2: "yToJ checked t (i + 1) y extrapolate = Inr b2" by auto
  have n1: "numY t i = Inr (int (length ?c1))" using c1(3) by (simp add: numY_def)
  have n2: "numY t (i + 1) = Inr (int (length ?c2))" using c2(3) by (simp add: numY_def)
  have j1: "0 \<le> bracket (int (length ?c1)) b1 \<and> bracket (int (length ?c1)) b1 \<le> int (length ?c1) - 2"
    using c1(1) by (intro bracket_range) simp
  have j2: "0 \<le> bracket (int (length ?c2)) b2 \<and> bracket (int (length ?c2)) b2 \<le> int (length ?c2) - 2"
    using c2(1) by (intro bracket_range) simp
  have "eval_cell checked t x y extrapolate =
      Inr (i, bracket (int (length ?c1)) b1, bracket (int (length ?c2)) b2,
           a - real_of_int i, b1 - real_of_int (bracket (int (length ?c1)) b1),
           b2 - real_of_int (bracket (int (length ?c2)) b2))"
    using a b1 b2 n1 n2 by (simp add: eval_cell_def i_def[symmetric] Let_def)
  with a b1 b2 n1 n2 i j1 j2 i_def show ?thesis by blast
qed

lemma static_cast_int_of_int:
  "0 \<le> k \<Longrightarrow> k \<le> INT_MAX \<Longrightarrow> static_cast_int (real_of_int k) = k"
  by (simp add: static_cast_int_def INT_MIN_def Let_def)

text \<open>Beyond the range of \<^verbatim>\<open>int\<close> the conversion yields \<^verbatim>\<open>INT_MIN\<close>, so the clamped index
  is 0 on either side.\<close>

lemma bracket_out_of_range:
  assumes "2 \<le> n" "r < real_of_int INT_MIN - 1 \<or> real_of_int INT_MAX + 1 \<le> r"
  shows "bracket n r = 0"
proof -
  have "static_cast_int r = INT_MIN"
  proof (cases "0 \<le> r")
    case True
    then have "real_of_int INT_MAX + 1 \<le> r" using assms(2) by (simp add: INT_MIN_def)
    then have "real_of_int (INT_MAX + 1) \<le> r" by simp
    then have "INT_MAX + 1 \<le> \<lfloor>r\<rfloor>" by (subst le_floor_iff)
    then show ?thesis using True by (simp add: static_cast_int_def Let_def)
  next
    case False
    then have "r < real_of_int INT_MIN - 1" using assms(2) by (simp add: INT_MAX_def)
    then have "r \<le> real_of_int (INT_MIN - 1)" by simp
    then have "\<lceil>r\<rceil> \<le> INT_MIN - 1" by (subst ceiling_le_iff)
    then show ?thesis using False by (simp add: static_cast_int_def Let_def)
  qed
  then show ?thesis using assms(1) by (simp add: bracket_def INT_MIN_def)
qed

lemma blend_node:
  fixes v :: "int \<Rightarrow> real"
  assumes "2 \<le> m" "0 \<le> j" "j < m" "j \<le> INT_MAX"
  shows "v (bracket m (real_of_int j)) * (1 - (real_of_int j - real_of_int (bracket m (real_of_int j))))
         + v (bracket m (real_of_int j) + 1) * (real_of_int j - real_of_int (bracket m (real_of_int j)))
         = v j"
proof (cases "j \<le> m - 2")
  case True
  then have "bracket m (real_of_int j) = j"
    using assms by (simp add: bracket_def static_cast_int_of_int)
  then show ?thesis by simp
next
  case False
  have c: "static_cast_int (real_of_int j) = j" using assms by (simp add: static_cast_int_of_int)
  have j: "j = m - 1" using False assms by simp
  have "bracket m (real_of_int j) = m - 2"
    unfolding bracket_def c using assms j by simp
  then show ?thesis using j by simp
qed

lemma xToI_node:
  assumes "table_inv t" "2 \<le> length (xPos t)" "0 \<le> i" "i < numX t"
    and "xToI checked t (xAt t i) extrapolate = Inr a"
  shows "a = real_of_int i"
proof -
  have s: "sorted_wrt (<) (xPos t)" using assms(1) by (simp add: table_inv_def)
  from xToI_segment_spec[OF s assms(2), of checked "xAt t i"] obtain seg where
    seg: "xToI_segment checked t (xAt t i) = Inr seg" "bracketed (xPos t) seg (xAt t i)" by blast
  have k: "nat i < length (xPos t)" using assms(3,4) by (simp add: numX_def)
  have "a = interval_position (xPos t) seg (xAt t i)"
    using assms(5) seg(1) by (simp add: xToI_result[OF assms(2)] split: if_splits)
  also have "\<dots> = real (nat i)"
    using interval_position_node[OF s _ k] seg(2) by (simp add: xAt_def)
  finally show ?thesis using assms(3) by simp
qed

lemma yToJ_node:
  assumes "table_inv t" "query_ready t" "0 \<le> i" "i < numX t"
    and "0 \<le> j" "j < int (length (samples t ! nat i))"
    and "yToJ checked t i (yAt t c j) extrapolate = Inr b" "c = i"
  shows "b = real_of_int j"
proof -
  let ?col = "samples t ! nat i"
  have len: "length (samples t) = length (xPos t)" using assms(1) by (simp add: table_inv_def)
  note col = query_ready_column[OF assms(1-4)]
  have k: "nat j < length (map get1 ?col)" using assms(5,6) by simp
  have y: "yAt t c j = map get1 ?col ! nat j" using k assms(8) by (simp add: yAt_def)
  have "b = interval_position (map get1 ?col)
               (yToJ_halving ?col (yAt t c j) 0 (int (length ?col) - 1)) (yAt t c j)"
    using assms(7) by (simp add: yToJ_result[OF col(1) assms(3,4) len refl] split: if_splits)
  also have "\<dots> = real (nat j)"
    unfolding y using yToJ_halving_bracketed[OF col(1)] by (intro interval_position_node[OF col(2) _ k])
  finally show ?thesis using assms(5) by simp
qed

lemma xToI_unchecked: "xToI False t x False = xToI False t x True"
  by (simp add: xToI_def)

lemma yToJ_unchecked: "yToJ False t i y False = yToJ False t i y True"
  by (simp add: yToJ_def split: sum.splits)

lemma eval_unchecked_ignores_flag:
  "eval False t x y extrapolate = eval False t x y True \<and>
   eval False t x y extrapolate \<noteq> Inl NumericalIssue"
proof (cases extrapolate)
  case True
  then show ?thesis by (simp add: eval_NumericalIssue)
next
  case False
  then show ?thesis
    by (simp add: eval_NumericalIssue)
      (simp add: eval_def eval_check_def xToI_unchecked yToJ_unchecked Let_def split: sum.splits)
qed

text \<open>With assertions compiled in and \<^verbatim>\<open>extrapolate = false\<close>, a stored sample of the last
  column can lie outside of the y-range of the column before it; the assertion of \<^verbatim>\<open>yToJ\<close>
  then fails.\<close>

lemma eval_node_checked_assertion:
  "eval True jagged_table (xAt jagged_table 1) (yAt jagged_table 1 1) False = Inl AssertionFailed"
  by (simp add: jagged_table_def query_defs Let_def)

lemma eval_check_skip: "extrapolate \<or> \<not> checked \<Longrightarrow> eval_check checked t x y extrapolate = Inr ()"
  by (auto simp: eval_check_def)

lemma eval_node:
  assumes inv: "table_inv t" and rdy: "query_ready t" and i: "0 \<le> i" "i < numX t"
    and j: "0 \<le> j" "j < int (length (samples t ! nat i))"
    and ex: "extrapolate \<or> \<not> checked"
    and rng: "i \<le> INT_MAX" "j \<le> INT_MAX"
  shows "eval checked t (xAt t i) (yAt t i j) extrapolate = Inr (valueAt t i j)"
proof -
  let ?x = "xAt t i" and ?y = "yAt t i j"
  have n: "2 \<le> length (xPos t)" using rdy by (simp add: query_ready_def)
  have m: "2 \<le> int (length (samples t ! nat i))"
    using query_ready_column(1)[OF inv rdy i] by simp
  from eval_cell_total[OF inv rdy ex, of ?x ?y] obtain i' j1 j2 alpha beta1 beta2 a b1 b2 n1 n2
    where cell: "eval_cell checked t ?x ?y extrapolate = Inr (i', j1, j2, alpha, beta1, beta2)"
      and a: "xToI checked t ?x extrapolate = Inr a" "i' = bracket (numX t) a"
        "alpha = a - real_of_int i'"
      and b1: "yToJ checked t i' ?y extrapolate = Inr b1" "numY t i' = Inr n1"
        "j1 = bracket n1 b1" "beta1 = b1 - real_of_int j1"
      and b2: "yToJ checked t (i' + 1) ?y extrapolate = Inr b2" "numY t (i' + 1) = Inr n2"
        "j2 = bracket n2 b2" "beta2 = b2 - real_of_int j2"
    by blast
  have a_eq: "a = real_of_int i" by (rule xToI_node[OF inv n i a(1)])
  have c: "static_cast_int (real_of_int i) = i"
    using i rng by (simp add: static_cast_int_of_int)
  have numY: "numY t i = Inr (int (length (samples t ! nat i)))"
    using query_ready_column(3)[OF inv rdy i] by (simp add: numY_def)
  have res: "eval checked t ?x ?y extrapolate = Inr (spec_blend t i' j1 j2 alpha beta1 beta2)"
    using cell ex by (simp add: eval_eq_cell eval_check_skip)
  show ?thesis
  proof (cases "i \<le> numX t - 2")
    case True
    then have i': "i' = i" using i unfolding a(2) a_eq bracket_def c by simp
    then have alpha: "alpha = 0" using a(3) a_eq by simp
    have "b1 = real_of_int j" using b1(1) unfolding i' by (rule yToJ_node[OF inv rdy i j _ refl])
    moreover have "n1 = int (length (samples t ! nat i))" using b1(2) numY unfolding i' by simp
    ultimately have "spec_blend t i' j1 j2 alpha beta1 beta2 = valueAt t i j"
      unfolding spec_blend_def alpha i' b1(3,4)
      using blend_node[OF m j rng(2), of "valueAt t i"] by simp
    with res show ?thesis by simp
  next
    case False
    then have i': "i' = numX t - 2" "i' + 1 = i"
      using i n unfolding a(2) a_eq bracket_def c by (simp_all add: numX_def)
    then have alpha: "alpha = 1" using a(3) a_eq by simp
    have "b2 = real_of_int j" using b2(1) unfolding i'(2) by (rule yToJ_node[OF inv rdy i j _ refl])
    moreover have "n2 = int (length (samples t ! nat i))" using b2(2) numY unfolding i'(2) by simp
    ultimately have "spec_blend t i' j1 j2 alpha beta1 beta2 = valueAt t i j"
      unfolding spec_blend_def alpha i'(2) b2(3,4)
      using blend_node[OF m j rng(2), of "valueAt t i"] by simp
    with res show ?thesis by simp
  qed
qed

text \<open>
  Claim C1. On a query-ready table, for every stored sample (column \<open>i\<close>, row \<open>j\<close>), the
  scalar \<^verbatim>\<open>eval\<close> at the coordinates \<open>(xAt(i), yAt(i, j))\<close> of the sample returns exactly
  \<open>valueAt(i, j)\<close>, in exact arithmetic. This is the call \<^verbatim>\<open>eval(x, y)\<close> with the default
  \<^verbatim>\<open>extrapolate = true\<close>; it also holds for every value of the flag when assertions are
  compiled out. The indices \<open>i\<close> and \<open>j\<close> are the \<^verbatim>\<open>int\<close> arguments of \<^verbatim>\<open>xAt\<close>, \<^verbatim>\<open>yAt\<close> and
  \<^verbatim>\<open>valueAt\<close>, hence at most \<^verbatim>\<open>INT_MAX\<close>.
\<close>

theorem C1_exact_at_nodes:
  assumes "table_inv t" "query_ready t" "0 \<le> i" "i < numX t"
    and "0 \<le> j" "numY t i = Inr m" "j < m"
    and "i \<le> INT_MAX" "j \<le> INT_MAX"
  shows "eval_default checked t (xAt t i) (yAt t i j) = Inr (valueAt t i j) \<and>
         eval False t (xAt t i) (yAt t i j) extrapolate = Inr (valueAt t i j) \<and>
         eval True t (xAt t i) (yAt t i j) True = Inr (valueAt t i j)"
proof -
  have "numY t i = Inr (int (length (samples t ! nat i)))"
    using query_ready_column(3)[OF assms(1-4)] by (simp add: numY_def)
  with assms(6,7) have j: "j < int (length (samples t ! nat i))" by simp
  show ?thesis
    using eval_node[OF assms(1-5) j _ assms(8,9), of True checked]
      eval_node[OF assms(1-5) j _ assms(8,9), of extrapolate False]
      eval_node[OF assms(1-5) j _ assms(8,9), of True True]
    by (simp add: eval_default_def)
qed

theorem C1_exact_at_nodes_witness:
  "eval_default True jagged_table 1 3 = Inr 3 \<and> eval False jagged_table 1 3 False = Inr 3 \<and>
   eval True jagged_table 1 3 True = Inr 3 \<and>
   xAt jagged_table 1 = 1 \<and> yAt jagged_table 1 1 = 3 \<and> valueAt jagged_table 1 1 = 3"
  using C1_exact_at_nodes[OF jagged_table_ready[THEN conjunct1] jagged_table_ready[THEN conjunct2],
      where i = 1 and j = 1 and m = 2 and checked = True and extrapolate = False]
  by (simp add: jagged_table_def xAt_def yAt_def valueAt_def numY_def numX_def vector_at_def
      get1_def get2_def INT_MAX_def)

lemma eval_Evaluation_value:
  "map_sum id val (eval_Evaluation checked t X Y extrapolate) =
     eval checked t (val X) (val Y) extrapolate"
  by (simp add: eval_Evaluation_eq_cell eval_eq_cell split: sum.splits prod.splits)

text \<open>
  Claim C5. With \<^verbatim>\<open>NDEBUG\<close> undefined, on a query-ready table \<^verbatim>\<open>applies\<close> returns a truth
  value (the number of columns being an \<^verbatim>\<open>int\<close>), and both \<^verbatim>\<open>eval\<close> overloads throw
  \<^verbatim>\<open>NumericalIssue\<close> if and only if \<^verbatim>\<open>extrapolate\<close> is false and \<^verbatim>\<open>applies(x, y)\<close> is false.
  With \<^verbatim>\<open>extrapolate\<close> true nothing is thrown: the column index is \<^verbatim>\<open>xToI(x)\<close> converted to
  \<^verbatim>\<open>int\<close> and clamped to \<open>[0, numX - 2]\<close>, the row indices are clamped to \<open>[0, numY - 2]\<close>
  of their columns, and the offsets are what remains of the unclamped positions, so they
  leave \<open>[0, 1)\<close> outside of the table: at \<open>x = 3\<close> on the example table the column index is
  0 and the offset is 3. Where the position exceeds the range of \<^verbatim>\<open>int\<close>, the conversion
  yields \<^verbatim>\<open>INT_MIN\<close> and the clamped index is 0: at \<open>x = 3000000000\<close> on the table with three
  columns the cell is the first one and the result is \<open>6000000000.5\<close>.
\<close>

theorem C5_numerical_issue:
  assumes "table_inv t" "query_ready t"
  shows "(numX t \<le> INT_MAX \<longrightarrow> (\<exists>b. applies True t x y = Inr b)) \<and>
    (eval True t x y extrapolate = Inl NumericalIssue \<longleftrightarrow>
       \<not> extrapolate \<and> applies True t x y = Inr False) \<and>
    (eval_Evaluation True t X Y extrapolate = Inl NumericalIssue \<longleftrightarrow>
       \<not> extrapolate \<and> applies True t (val X) (val Y) = Inr False) \<and>
    (\<exists>i j1 j2 a b1 b2 n1 n2.
       xToI True t x True = Inr a \<and> i = bracket (numX t) a \<and> 0 \<le> i \<and> i \<le> numX t - 2 \<and>
       yToJ True t i y True = Inr b1 \<and> numY t i = Inr n1 \<and>
       j1 = bracket n1 b1 \<and> 0 \<le> j1 \<and> j1 \<le> n1 - 2 \<and>
       yToJ True t (i + 1) y True = Inr b2 \<and> numY t (i + 1) = Inr n2 \<and>
       j2 = bracket n2 b2 \<and> 0 \<le> j2 \<and> j2 \<le> n2 - 2 \<and>
       eval True t x y True =
         Inr (spec_blend t i j1 j2 (a - real_of_int i) (b1 - real_of_int j1) (b2 - real_of_int j2))) \<and>
    (\<exists>R. eval_Evaluation True t X Y True = Inr R \<and>
          eval True t (val X) (val Y) True = Inr (val R)) \<and>
    xToI True example_table 3 True = Inr 3 \<and> bracket (numX example_table) 3 = 0 \<and>
    eval True example_table 3 (1 / 2) True = Inr (13 / 2) \<and>
    three_column_build True = Inr three_column_table \<and>
    xToI True three_column_table 3000000000 True = Inr 3000000000 \<and>
    static_cast_int 3000000000 = INT_MIN \<and>
    bracket (numX three_column_table) 3000000000 = 0 \<and>
    eval True three_column_table 3000000000 (1 / 2) True = Inr (12000000001 / 2)"
proof (intro conjI impI)
  show "\<exists>b. applies True t x y = Inr b" if "numX t \<le> INT_MAX"
    using applies_result[OF assms that, of x True y] by blast
  show "eval True t x y extrapolate = Inl NumericalIssue \<longleftrightarrow>
       \<not> extrapolate \<and> applies True t x y = Inr False"
    by (simp add: eval_NumericalIssue)
  show "eval_Evaluation True t X Y extrapolate = Inl NumericalIssue \<longleftrightarrow>
       \<not> extrapolate \<and> applies True t (val X) (val Y) = Inr False"
    by (simp add: eval_Evaluation_NumericalIssue)
  from eval_cell_total[OF assms, of True True x y]
  obtain i j1 j2 alpha beta1 beta2 a b1 b2 n1 n2 where
    c: "eval_cell True t x y True = Inr (i, j1, j2, alpha, beta1, beta2)"
      "xToI True t x True = Inr a" "i = bracket (numX t) a" "0 \<le> i" "i \<le> numX t - 2"
      "alpha = a - real_of_int i"
      "yToJ True t i y True = Inr b1" "numY t i = Inr n1" "j1 = bracket n1 b1"
      "0 \<le> j1" "j1 \<le> n1 - 2" "beta1 = b1 - real_of_int j1"
      "yToJ True t (i + 1) y True = Inr b2" "numY t (i + 1) = Inr n2"
      "j2 = bracket n2 b2" "0 \<le> j2" "j2 \<le> n2 - 2" "beta2 = b2 - real_of_int j2"
    by blast
  have "eval True t x y True =
      Inr (spec_blend t i j1 j2 (a - real_of_int i) (b1 - real_of_int j1) (b2 - real_of_int j2))"
    using c(1) unfolding c(6,12,18) by (simp add: eval_eq_cell eval_check_skip)
  with c show "\<exists>i j1 j2 a b1 b2 n1 n2.
       xToI True t x True = Inr a \<and> i = bracket (numX t) a \<and> 0 \<le> i \<and> i \<le> numX t - 2 \<and>
       yToJ True t i y True = Inr b1 \<and> numY t i = Inr n1 \<and>
       j1 = bracket n1 b1 \<and> 0 \<le> j1 \<and> j1 \<le> n1 - 2 \<and>
       yToJ True t (i + 1) y True = Inr b2 \<and> numY t (i + 1) = Inr n2 \<and>
       j2 = bracket n2 b2 \<and> 0 \<le> j2 \<and> j2 \<le> n2 - 2 \<and>
       eval True t x y True =
         Inr (spec_blend t i j1 j2 (a - real_of_int i) (b1 - real_of_int j1) (b2 - real_of_int j2))"
    by blast
  from eval_cell_total[OF assms, of True True "val X" "val Y"]
  obtain cell where "eval_cell True t (val X) (val Y) True = Inr cell" by blast
  then show "\<exists>R. eval_Evaluation True t X Y True = Inr R \<and>
          eval True t (val X) (val Y) True = Inr (val R)"
    by (cases cell) (simp add: eval_Evaluation_eq_cell eval_eq_cell eval_check_skip)
  show "xToI True example_table 3 True = Inr 3"
    by (simp add: example_table_def query_defs)
  show "bracket (numX example_table) 3 = 0"
    by (simp add: example_table_def bracket_def numX_def static_cast_int_def
        INT_MIN_def INT_MAX_def)
  show "eval True example_table 3 (1 / 2) True = Inr (13 / 2)"
    by (simp add: example_table_def query_defs Let_def)
  show "three_column_build True = Inr three_column_table"
    by (rule three_column_build_eq)
  show "xToI True three_column_table 3000000000 True = Inr 3000000000"
    by (simp add: three_column_table_def query_defs)
  show "static_cast_int 3000000000 = INT_MIN"
    by (simp add: static_cast_int_def INT_MIN_def INT_MAX_def)
  show "bracket (numX three_column_table) 3000000000 = 0"
    by (simp add: three_column_table_def bracket_def numX_def static_cast_int_def
        INT_MIN_def INT_MAX_def)
  show "eval True three_column_table 3000000000 (1 / 2) True = Inr (12000000001 / 2)"
    by (simp add: three_column_table_def query_defs Let_def)
qed

theorem C5_numerical_issue_witness:
  "applies True jagged_table (1 / 2) (3 / 2) = Inr False \<and>
   eval True jagged_table (1 / 2) (3 / 2) False = Inl NumericalIssue \<and>
   eval_Evaluation True jagged_table \<lparr>val = 1 / 2, derivatives = [1]\<rparr>
     \<lparr>val = 3 / 2, derivatives = [0]\<rparr> False = Inl NumericalIssue \<and>
   eval True jagged_table (1 / 2) (3 / 2) True = Inr 2 \<and>
   eval True jagged_table 5 7 True \<noteq> Inl NumericalIssue"
  using C5_numerical_issue[OF jagged_table_ready[THEN conjunct1] jagged_table_ready[THEN conjunct2],
      where x = "1 / 2" and y = "3 / 2" and extrapolate = False
        and X = "\<lparr>val = 1 / 2, derivatives = [1]\<rparr>" and Y = "\<lparr>val = 3 / 2, derivatives = [0]\<rparr>"]
    C5_numerical_issue[OF jagged_table_ready[THEN conjunct1] jagged_table_ready[THEN conjunct2],
      where x = 5 and y = 7 and extrapolate = True
        and X = "\<lparr>val = 1 / 2, derivatives = [1]\<rparr>" and Y = "\<lparr>val = 3 / 2, derivatives = [0]\<rparr>"]
  by (simp add: jagged_table_def query_defs Let_def)

text \<open>
  Claim C10. Called without the third argument, the scalar \<^verbatim>\<open>eval\<close> extrapolates and never
  throws \<^verbatim>\<open>NumericalIssue\<close>, while the derivative-carrying \<^verbatim>\<open>eval\<close> does not extrapolate
  and, with \<^verbatim>\<open>NDEBUG\<close> undefined, throws \<^verbatim>\<open>NumericalIssue\<close> exactly when \<^verbatim>\<open>applies\<close> is false.
  At \<open>(3, 0.5)\<close> on the example table the first returns \<open>6.5\<close> and the second throws.
\<close>

theorem C10_default_modes:
  "eval_default checked t x y = eval checked t x y True \<and>
   eval_Evaluation_default checked t X Y = eval_Evaluation checked t X Y False \<and>
   eval_default checked t x y \<noteq> Inl NumericalIssue \<and>
   (eval_Evaluation_default True t X Y = Inl NumericalIssue \<longleftrightarrow>
      applies True t (val X) (val Y) = Inr False) \<and>
   applies True example_table 3 (1 / 2) = Inr False \<and>
   eval_default True example_table 3 (1 / 2) = Inr (13 / 2) \<and>
   eval_Evaluation_default True example_table \<lparr>val = 3, derivatives = [1]\<rparr>
     \<lparr>val = 1 / 2, derivatives = [0]\<rparr> = Inl NumericalIssue"
proof (intro conjI)
  show "eval_default checked t x y = eval checked t x y True" by (simp add: eval_default_def)
  show "eval_Evaluation_default checked t X Y = eval_Evaluation checked t X Y False"
    by (simp add: eval_Evaluation_default_def)
  show "eval_default checked t x y \<noteq> Inl NumericalIssue"
    by (simp add: eval_default_def eval_NumericalIssue)
  show "eval_Evaluation_default True t X Y = Inl NumericalIssue \<longleftrightarrow>
      applies True t (val X) (val Y) = Inr False"
    by (simp add: eval_Evaluation_default_def eval_Evaluation_NumericalIssue)
  show a: "applies True example_table 3 (1 / 2) = Inr False"
    by (simp add: example_table_def applies_def xMin_def xMax_def)
  show "eval_default True example_table 3 (1 / 2) = Inr (13 / 2)"
    by (simp add: eval_default_def example_table_def query_defs Let_def)
  show "eval_Evaluation_default True example_table \<lparr>val = 3, derivatives = [1]\<rparr>
     \<lparr>val = 1 / 2, derivatives = [0]\<rparr> = Inl NumericalIssue"
    using a by (simp add: eval_Evaluation_default_def eval_Evaluation_NumericalIssue)
qed

text \<open>
  Claim C3. The documented test blends the y-bounds of the two bracketing columns. The code
  reads column \<^verbatim>\<open>int(i)\<close> for both \<^verbatim>\<open>col1SamplePoints\<close> and \<^verbatim>\<open>col2SamplePoints\<close>, so it tests
  \<open>y\<close> against the bounds of that single column. On the table with the columns
  \<open>y \<in> {0, 1}\<close> at \<open>x = 0\<close> and \<open>y \<in> {0, 3}\<close> at \<open>x = 1\<close>, at the point \<open>(0.5, 1.5)\<close> the
  blended range is \<open>[0, 2]\<close> and contains \<open>y\<close>, but \<^verbatim>\<open>applies\<close> returns false.
\<close>

theorem C3_applies_single_column:
  "jagged_build checked = Inr jagged_table \<and>
   applies checked jagged_table (1 / 2) (3 / 2) = Inr False \<and>
   spec_applies checked jagged_table (1 / 2) (3 / 2) = Inr True"
  by (simp add: jagged_build_eq jagged_table_def applies_def spec_applies_def xToI_def
      xToI_segment_def xMin_def xMax_def vector_at_def static_cast_int_def INT_MIN_def
      INT_MAX_def get1_def
      yMin_def yMax_def Let_def)

lemma spec_blend_has_derivative:
  assumes X: "(X has_real_derivative dX) (at s)" and Y: "(Y has_real_derivative dY) (at s)"
  shows "((\<lambda>r. spec_blend t i j1 j2
                 (alpha + (X r - X s) / (xAt t (i + 1) - xAt t i))
                 (beta1 + (Y r - Y s) / (yAt t i (j1 + 1) - yAt t i j1))
                 (beta2 + (Y r - Y s) / (yAt t (i + 1) (j2 + 1) - yAt t (i + 1) j2)))
          has_real_derivative spec_blend_derivative t i j1 j2 alpha beta1 beta2 dX dY) (at s)"
  unfolding spec_blend_def spec_blend_derivative_def Let_def divide_inverse
  by (auto intro!: derivative_eq_intros X Y simp: algebra_simps)

text \<open>
  Claim C2. On a query-ready table and for inputs \<open>X\<close>, \<open>Y\<close> with derivative vectors of the
  same length, the derivative-carrying \<^verbatim>\<open>eval\<close> fails exactly when the scalar \<^verbatim>\<open>eval\<close> at
  \<open>(X.value, Y.value)\<close> with the same flag fails, and with the same error; otherwise its value
  is the scalar result, its derivative vector has the length of the inputs', and its
  derivative for each variable is the chain-rule derivative of the bilinear blend over the
  located cell, with \<open>d alpha = dX / (x[i+1] - x[i])\<close>,
  \<open>d beta1 = dY / (y[i,j1+1] - y[i,j1])\<close>, \<open>d beta2 = dY / (y[i+1,j2+1] - y[i+1,j2])\<close> and
  constant corner values. It returns whenever \<^verbatim>\<open>extrapolate\<close> is set or assertions are
  compiled out. That the formula is the derivative of the blend along any differentiable
  path of the inputs is \<open>spec_blend_has_derivative\<close>. The located cell is the one of the
  code also where the position exceeds the range of \<^verbatim>\<open>int\<close>: at \<open>X = 3000000000\<close>,
  \<open>Y = 0.5\<close> on the table with three columns it is the first cell, the value is
  \<open>6000000000.5\<close> and the derivative with respect to \<open>X\<close> is 2.
\<close>

theorem C2_derivative_eval:
  assumes "table_inv t" "query_ready t" "length (derivatives X) = length (derivatives Y)"
  shows "map_sum id val (eval_Evaluation checked t X Y extrapolate) =
           eval checked t (val X) (val Y) extrapolate \<and>
         (\<forall>R. eval_Evaluation checked t X Y extrapolate = Inr R \<longrightarrow>
            eval checked t (val X) (val Y) extrapolate = Inr (val R) \<and>
            length (derivatives R) = length (derivatives X) \<and>
            (\<exists>i j1 j2 alpha beta1 beta2.
               eval_cell checked t (val X) (val Y) extrapolate =
                 Inr (i, j1, j2, alpha, beta1, beta2) \<and>
               val R = spec_blend t i j1 j2 alpha beta1 beta2 \<and>
               (\<forall>k<length (derivatives X).
                  derivatives R ! k =
                    spec_blend_derivative t i j1 j2 alpha beta1 beta2
                      (derivatives X ! k) (derivatives Y ! k)))) \<and>
         (extrapolate \<or> \<not> checked \<longrightarrow> (\<exists>R. eval_Evaluation checked t X Y extrapolate = Inr R)) \<and>
         eval_cell True three_column_table 3000000000 (1 / 2) True =
           Inr (0, 0, 0, 3000000000, 1 / 2, 1 / 2) \<and>
         eval_Evaluation True three_column_table \<lparr>val = 3000000000, derivatives = [1]\<rparr>
             \<lparr>val = 1 / 2, derivatives = [0]\<rparr> True
           = Inr \<lparr>val = 12000000001 / 2, derivatives = [2]\<rparr>"
proof (intro conjI allI impI)
  show "eval_cell True three_column_table 3000000000 (1 / 2) True =
           Inr (0, 0, 0, 3000000000, 1 / 2, 1 / 2)"
    by (simp add: three_column_table_def eval_cell_def bracket_def query_defs Let_def)
  show "eval_Evaluation True three_column_table \<lparr>val = 3000000000, derivatives = [1]\<rparr>
             \<lparr>val = 1 / 2, derivatives = [0]\<rparr> True
           = Inr \<lparr>val = 12000000001 / 2, derivatives = [2]\<rparr>"
    by (simp add: three_column_table_def query_defs eval_Evaluation_def
        Evaluation_createConstant_def Evaluation_minus_int_def Evaluation_plus_def
        Evaluation_times_def Evaluation_scale_def Evaluation_one_minus_def Let_def)
  show v: "map_sum id val (eval_Evaluation checked t X Y extrapolate) =
           eval checked t (val X) (val Y) extrapolate"
    by (rule eval_Evaluation_value)
  {
    fix R assume R: "eval_Evaluation checked t X Y extrapolate = Inr R"
    from v show "eval checked t (val X) (val Y) extrapolate = Inr (val R)"
      unfolding R by simp
    from R obtain i j1 j2 alpha beta1 beta2 where
      cell: "eval_cell checked t (val X) (val Y) extrapolate = Inr (i, j1, j2, alpha, beta1, beta2)"
      and R_eq: "R = \<lparr>val = spec_blend t i j1 j2 alpha beta1 beta2,
                    derivatives =
                      map (\<lambda>k. spec_blend_derivative t i j1 j2 alpha beta1 beta2
                                 (derivatives X ! k) (derivatives Y ! k))
                          [0..<length (derivatives X)]\<rparr>"
      by (auto simp: eval_Evaluation_eq_cell split: sum.splits prod.splits)
    show "length (derivatives R) = length (derivatives X)" by (simp add: R_eq)
    show "\<exists>i j1 j2 alpha beta1 beta2.
               eval_cell checked t (val X) (val Y) extrapolate =
                 Inr (i, j1, j2, alpha, beta1, beta2) \<and>
               val R = spec_blend t i j1 j2 alpha beta1 beta2 \<and>
               (\<forall>k<length (derivatives X).
                  derivatives R ! k =
                    spec_blend_derivative t i j1 j2 alpha beta1 beta2
                      (derivatives X ! k) (derivatives Y ! k))"
      using cell by (intro exI[of _ i] exI[of _ j1] exI[of _ j2] exI[of _ alpha]
          exI[of _ beta1] exI[of _ beta2]) (simp add: R_eq)
  }
  {
    assume ex: "extrapolate \<or> \<not> checked"
    from eval_cell_total[OF assms(1,2) ex, of "val X" "val Y"]
    obtain cell where "eval_cell checked t (val X) (val Y) extrapolate = Inr cell" by blast
    then show "\<exists>R. eval_Evaluation checked t X Y extrapolate = Inr R"
      using ex by (cases cell) (simp add: eval_Evaluation_eq_cell eval_check_skip)
  }
qed

theorem C2_derivative_eval_witness:
  "eval_Evaluation True example_table \<lparr>val = 1 / 2, derivatives = [1, 0]\<rparr>
       \<lparr>val = 1 / 2, derivatives = [0, 1]\<rparr> False
     = Inr \<lparr>val = 3 / 2, derivatives = [2, 1]\<rparr> \<and>
   eval True example_table (1 / 2) (1 / 2) False = Inr (3 / 2) \<and>
   eval_cell True example_table (1 / 2) (1 / 2) False = Inr (0, 0, 0, 1 / 2, 1 / 2, 1 / 2) \<and>
   spec_blend_derivative example_table 0 0 0 (1 / 2) (1 / 2) (1 / 2) 1 0 = 2 \<and>
   spec_blend_derivative example_table 0 0 0 (1 / 2) (1 / 2) (1 / 2) 0 1 = 1"
  using C2_derivative_eval[OF example_table_ready[THEN conjunct1] example_table_ready[THEN conjunct2],
      where X = "\<lparr>val = 1 / 2, derivatives = [1, 0]\<rparr>"
        and Y = "\<lparr>val = 1 / 2, derivatives = [0, 1]\<rparr>" and checked = True and extrapolate = False]
  by (simp add: example_table_def query_defs eval_cell_def bracket_def spec_blend_derivative_def
      eval_Evaluation_def Evaluation_createConstant_def Evaluation_minus_int_def
      Evaluation_plus_def Evaluation_times_def Evaluation_scale_def Evaluation_one_minus_def
      Let_def)

end
